theory Spec2Isabelle
  imports Main "HOL-Library.Word"
begin

unbundle bit_operations_syntax

section \<open>Values and errors of queryutils.ts\<close>

text \<open>
  A byte of an \<open>ArrayBuffer\<close> or \<open>Uint8Array\<close> is an \<open>8 word\<close>; a JavaScript string
  is the list of its UTF-16 code units, each a \<open>16 word\<close>. A format string is a
  \<open>string\<close>: the model covers format strings whose code points are below 256.
\<close>

type_synonym byte = "8 word"
type_synonym jsstring = "16 word list"

text \<open>
  A JavaScript number that a byte list or a comparison can hold: an integer or \<open>NaN\<close>
  (the only non-integer that \<open>Number.parseInt\<close> produces).
\<close>

datatype jsnum = Num int | NaN

text \<open>
  The values that are passed to \<open>formatQuery\<close> and returned by \<open>scanQuery\<close>: an integer
  (a \<open>JSBI\<close> big integer, or an integral number), a string, a \<open>Uint8Array\<close>, and
  \<open>undefined\<close>, which is what \<open>shift()\<close> gives on an empty array.
\<close>

datatype jsval = VInt int | VStr jsstring | VBytes "byte list" | VUndefined

text \<open>
  Modelled from the spec: \<open>assert\<close> of \<open>./utils\<close>, which is not among the sources. The
  spec has a violated assertion be fatal to the call, so \<open>assert(c, msg)\<close> with \<open>c\<close> false
  is an error, as a \<open>throw\<close> is. Every \<open>throw\<close> and every assertion of the file is one
  constructor.
\<close>

datatype error =
    HalfNotNull                       \<comment> \<open>\<open>assert(half === null)\<close>\<close>
  | UnrecognizedFormatChar char       \<comment> \<open>\<open>Unrecognized format char ${char}\<close>\<close>
  | UnexpectedType                    \<comment> \<open>\<open>Unexpected type for value\<close>\<close>
  | NotAString                        \<comment> \<open>\<open>assertString\<close>\<close>
  | BigIntTypeError                   \<comment> \<open>\<open>JSBI.BigInt(undefined)\<close>\<close>
  | BigIntSyntaxError                 \<comment> \<open>\<open>JSBI.BigInt\<close> of a string or an object\<close>
  | Mismatch int jsnum "byte option"  \<comment> \<open>\<open>Format and input mismatch at ${i}: expected .., got ..\<close>\<close>
  | BytesRemaining nat                \<comment> \<open>\<open>${inputStack.length} Bytes remaining to parse\<close>\<close>
  | UnsupportedLength                 \<comment> \<open>\<open>Unsupported length. Max allowed is 4\<close>\<close>
  | CannotFit nat nat                 \<comment> \<open>\<open>Value ${value} cannot fit in ${length} bytes in BCD\<close>\<close>

section \<open>The BCD codec\<close>

text \<open>
  The arguments of \<open>BCD2int\<close> and \<open>int2BCD\<close> are JavaScript numbers; the model covers
  the non-negative integers. The bitwise operators of JavaScript work on 32 bits:
  \<open>&\<close>, \<open>|\<close> and \<open><<\<close> convert their operands with \<open>ToInt32\<close> and give a signed 32-bit
  result, \<open>>>>\<close> converts with \<open>ToUint32\<close> and gives an unsigned one, and a shift count is
  taken modulo 32. \<open>ToInt32\<close> and \<open>ToUint32\<close> give the same 32 bits, read as signed or as
  unsigned. The sums and quotients of both functions stay far below \<open>2 ^ 53\<close>, where the
  arithmetic of JavaScript numbers is exact.
\<close>

definition ToUint32 :: "nat \<Rightarrow> 32 word" where
  "ToUint32 n = word_of_nat n"

text \<open>
  \<open>while (bcd !== 0) { nibbleValue = bcd & 0xf; bcd = bcd >>> 4;
  value += nibbleValue * Math.pow(10, nibble); nibble += 1 }\<close>
\<close>

function BCD2int_loop :: "nat \<Rightarrow> nat \<Rightarrow> nat \<Rightarrow> nat" where
  "BCD2int_loop bcd val nibble =
     (if bcd = 0 then val
      else BCD2int_loop (unat (drop_bit 4 (ToUint32 bcd)))
             (val + unat (ToUint32 bcd AND 0xf) * 10 ^ nibble)
             (nibble + 1))"
  by pat_completeness auto
termination
proof (relation "measure (\<lambda>(bcd, val, nibble). bcd)")
  show "wf (measure (\<lambda>(bcd, val, nibble). bcd))"
    by simp
next
  fix bcd val nibble :: nat
  assume "bcd \<noteq> 0"
  have "unat (drop_bit 4 (ToUint32 bcd)) = drop_bit 4 (unat (ToUint32 bcd))"
    by (rule unat_drop_bit_eq)
  also have "\<dots> = (bcd mod 2 ^ 32) div 2 ^ 4"
    by (simp add: ToUint32_def unat_of_nat take_bit_eq_mod drop_bit_eq_div)
  also have "\<dots> \<le> bcd div 2 ^ 4"
    by (rule div_le_mono) simp
  also have "\<dots> < bcd"
    using \<open>bcd \<noteq> 0\<close> by simp
  finally show "((unat (drop_bit 4 (ToUint32 bcd)),
                  val + unat (ToUint32 bcd AND 0xf) * 10 ^ nibble, nibble + 1),
                 (bcd, val, nibble)) \<in> measure (\<lambda>(bcd, val, nibble). bcd)"
    by simp
qed

declare BCD2int_loop.simps [simp del]

definition BCD2int :: "nat \<Rightarrow> nat" where
  "BCD2int bcd = BCD2int_loop bcd 0 0"

text \<open>
  \<open>while (value) { [value, nibbleValue] = [Math.floor(value / 10), value % 10];
  bcd |= nibbleValue << (4 * nibble); nibble += 1 }\<close>. The accumulator \<open>bcd\<close> is the
  result of \<open>|\<close>, a signed 32-bit integer.
\<close>

function int2BCD_loop :: "nat \<Rightarrow> 32 word \<Rightarrow> nat \<Rightarrow> 32 word" where
  "int2BCD_loop val bcd nibble =
     (if val = 0 then bcd
      else int2BCD_loop (val div 10)
             (bcd OR push_bit ((4 * nibble) mod 32) (word_of_nat (val mod 10)))
             (nibble + 1))"
  by pat_completeness auto
termination
  by (relation "measure (\<lambda>(val, bcd, nibble). val)") auto

declare int2BCD_loop.simps [simp del]

definition int2BCD :: "nat \<Rightarrow> nat \<Rightarrow> error + int" where
  "int2BCD val len =
     (if len > 4 then Inl UnsupportedLength
      else if val > 10 ^ (len * 2) - 1 then Inl (CannotFit val len)
      else Inr (sint (int2BCD_loop val 0 0)))"

section \<open>The format interpreter\<close>

subsection \<open>What queryutils.ts takes from the language and from its libraries\<close>

text \<open>
  \<open>FORMAT_TYPE_LEN_DICT\<close>: the object literal at the head of the file. \<open>char in
  FORMAT_TYPE_LEN_DICT\<close> is \<open>FORMAT_TYPE_LEN_DICT char \<noteq> None\<close> (no property of
  \<open>Object.prototype\<close> has a one-character name).
\<close>

definition FORMAT_TYPE_LEN_DICT :: "char \<rightharpoonup> nat" where
  "FORMAT_TYPE_LEN_DICT =
     [CHR ''b'' \<mapsto> 1, CHR ''w'' \<mapsto> 2, CHR ''d'' \<mapsto> 4, CHR ''q'' \<mapsto> 8]"

text \<open>
  \<open>Number.parseInt(string, 16)\<close> of ECMAScript: leading white space is dropped, then
  one sign, then one \<open>0x\<close> or \<open>0X\<close>; the longest run of hexadecimal digits that follows
  is the value, and the result is \<open>NaN\<close> when that run is empty.
\<close>

definition StrWhiteSpaceChar :: "char \<Rightarrow> bool" where
  "StrWhiteSpaceChar c \<longleftrightarrow> (of_char c :: nat) \<in> {9, 10, 11, 12, 13, 32, 160}"

definition hexDigit :: "char \<Rightarrow> int option" where
  "hexDigit c =
     (let n = (of_char c :: int) in
      if 48 \<le> n \<and> n \<le> 57 then Some (n - 48)
      else if 97 \<le> n \<and> n \<le> 102 then Some (n - 87)
      else if 65 \<le> n \<and> n \<le> 70 then Some (n - 55)
      else None)"

fun hexDigits :: "string \<Rightarrow> int \<Rightarrow> int" where
  "hexDigits [] acc = acc"
| "hexDigits (c # cs) acc =
     (case hexDigit c of None \<Rightarrow> acc | Some d \<Rightarrow> hexDigits cs (acc * 16 + d))"

definition parseInt16 :: "string \<Rightarrow> jsnum" where
  "parseInt16 inputString =
     (let s1 = dropWhile StrWhiteSpaceChar inputString;
          sign = (if take 1 s1 = ''-'' then - 1 else 1);
          s2 = (if take 1 s1 = ''-'' \<or> take 1 s1 = ''+'' then drop 1 s1 else s1);
          s3 = (if take 2 s2 = ''0x'' \<or> take 2 s2 = ''0X'' then drop 2 s2 else s2)
      in case s3 of
           [] \<Rightarrow> NaN
         | c # _ \<Rightarrow> (case hexDigit c of None \<Rightarrow> NaN | Some _ \<Rightarrow> Num (sign * hexDigits s3 0)))"

text \<open>
  \<open>new Uint8Array(result)\<close> converts each number with \<open>ToUint8\<close>: an integer modulo
  256, \<open>NaN\<close> to 0.
\<close>

fun ToUint8 :: "jsnum \<Rightarrow> byte" where
  "ToUint8 (Num n) = word_of_int n"
| "ToUint8 NaN = 0"

text \<open>\<open>String.fromCharCode(...bytes)\<close>: one code unit for each byte.\<close>

definition fromCharCode :: "byte list \<Rightarrow> jsstring" where
  "fromCharCode bs = map ucast bs"

text \<open>
  The loose inequality \<open>formatValue != inputValue\<close> between the number that
  \<open>Number.parseInt\<close> gave and the result of \<open>inputStack.shift()\<close>, a byte or \<open>undefined\<close>:
  \<open>NaN\<close> differs from everything, and a number differs from \<open>undefined\<close>.
\<close>

fun loose_neq :: "jsnum \<Rightarrow> byte option \<Rightarrow> bool" where
  "loose_neq (Num n) (Some b) \<longleftrightarrow> n \<noteq> uint b"
| "loose_neq (Num n) None \<longleftrightarrow> True"
| "loose_neq NaN v \<longleftrightarrow> True"

text \<open>
  Modelled from the spec: \<open>stringToCharCodeArray\<close> of \<open>./utils\<close>, which is not among the
  sources. The spec has the string tokens emit the raw character codes of the string,
  one for each character.
\<close>

definition stringToCharCodeArray :: "jsstring \<Rightarrow> jsnum list" where
  "stringToCharCodeArray str = map (\<lambda>u. Num (uint u)) str"

text \<open>
  Modelled from the spec: \<open>assertString\<close> of \<open>./utils\<close>, which is not among the
  sources. The spec has the string tokens require the argument to be a string, any other
  type being fatal.
\<close>

fun assertString :: "jsval \<Rightarrow> error + jsstring" where
  "assertString (VStr s) = Inr s"
| "assertString v = Inl NotAString"

text \<open>
  Modelled from the spec: \<open>JSBI.BigInt\<close> of the library \<open>jsbi\<close>, which is not among the
  sources. The spec has the integer tokens coerce the argument to an arbitrary-precision
  integer. The library throws a \<open>TypeError\<close> on \<open>undefined\<close>. A string or an array it
  would hand to its numeral parser, which is not modelled: such an argument is reported
  as \<open>BigIntSyntaxError\<close>, and nothing below is stated about it.
\<close>

fun JSBI_BigInt :: "jsval \<Rightarrow> error + int" where
  "JSBI_BigInt (VInt n) = Inr n"
| "JSBI_BigInt VUndefined = Inl BigIntTypeError"
| "JSBI_BigInt v = Inl BigIntSyntaxError"

subsection \<open>formatQuery\<close>

text \<open>
  The local variables of \<open>formatQuery\<close> that the loop over the format string updates.
\<close>

record fq_state =
  f_result :: "jsnum list"
  f_half :: "char option"
  argStack :: "jsval list"
  f_escaped :: bool

text \<open>
  \<open>for (let byte = FORMAT_TYPE_LEN_DICT[char] - 1; byte >= 0; byte--)\<close>: the first
  argument is \<open>byte + 1\<close>. \<open>JSBI.signedRightShift\<close> and \<open>JSBI.bitwiseAnd\<close> are the
  two's-complement operations on unbounded integers, as \<open>drop_bit\<close> and \<open>AND\<close> on \<open>int\<close>.
\<close>

fun format_bytes :: "nat \<Rightarrow> int \<Rightarrow> jsnum list" where
  "format_bytes 0 numberValue = []"
| "format_bytes (Suc byte) numberValue =
     Num (drop_bit (byte * 8) numberValue AND 0xff) # format_bytes byte numberValue"

text \<open>
  One round of the loop \<open>for (let char of format)\<close>. \<open>argStack.shift()\<close> gives
  \<open>undefined\<close> on the empty array and leaves it empty. The length of a string is below
  \<open>2 ^ 31\<close>, so the 32-bit \<open>>>\<close> and \<open>&\<close> on it are \<open>drop_bit\<close> and \<open>AND\<close> on \<open>int\<close>.
\<close>

definition format_step :: "char \<Rightarrow> fq_state \<Rightarrow> error + fq_state" where
  "format_step char st =
     (if f_escaped st then
        let val = (case argStack st of [] \<Rightarrow> VUndefined | v # _ \<Rightarrow> v);
            st1 = st\<lparr>f_escaped := False, argStack := tl (argStack st)\<rparr>
        in case FORMAT_TYPE_LEN_DICT char of
             Some len \<Rightarrow>
               (case JSBI_BigInt val of
                  Inl e \<Rightarrow> Inl e
                | Inr numberValue \<Rightarrow>
                    Inr (st1\<lparr>f_result := f_result st1 @ format_bytes len numberValue\<rparr>))
           | None \<Rightarrow>
               if char = CHR ''x'' \<or> char = CHR ''s'' then
                 (case assertString val of
                    Inl e \<Rightarrow> Inl e
                  | Inr stringValue \<Rightarrow>
                      let stringLength =
                            int (length stringValue) + (if char = CHR ''s'' then 1 else 0)
                      in Inr (st1\<lparr>f_result := f_result st1
                                @ [Num (drop_bit 8 stringLength AND 0xff),
                                   Num (stringLength AND 0xff)]
                                @ stringToCharCodeArray stringValue
                                @ (if char = CHR ''s'' then [Num 0] else [])\<rparr>))
               else if char = CHR ''*'' then
                 (case val of
                    VStr s \<Rightarrow> Inr (st1\<lparr>f_result := f_result st1 @ stringToCharCodeArray s\<rparr>)
                  | VBytes bs \<Rightarrow>
                      Inr (st1\<lparr>f_result := f_result st1 @ map (\<lambda>b. Num (uint b)) bs\<rparr>)
                  | _ \<Rightarrow> Inl UnexpectedType)
               else Inl (UnrecognizedFormatChar char)
      else if char = CHR ''%'' then
        (if f_half st = None then Inr (st\<lparr>f_escaped := True\<rparr>) else Inl HalfNotNull)
      else if char = CHR '' '' then Inr st
      else case f_half st of
             None \<Rightarrow> Inr (st\<lparr>f_half := Some char\<rparr>)
           | Some h \<Rightarrow>
               Inr (st\<lparr>f_result := f_result st @ [parseInt16 [h, char]], f_half := None\<rparr>))"

fun format_loop :: "string \<Rightarrow> fq_state \<Rightarrow> error + fq_state" where
  "format_loop [] st = Inr st"
| "format_loop (char # format) st =
     (case format_step char st of Inl e \<Rightarrow> Inl e | Inr st' \<Rightarrow> format_loop format st')"

definition format_init :: "jsval list \<Rightarrow> fq_state" where
  "format_init args = \<lparr>f_result = [], f_half = None, argStack = args, f_escaped = False\<rparr>"

definition formatQuery :: "string \<Rightarrow> jsval list \<Rightarrow> error + byte list" where
  "formatQuery format args =
     (case format_loop format (format_init args) of
        Inl e \<Rightarrow> Inl e
      | Inr st \<Rightarrow> Inr (map ToUint8 (f_result st)))"

subsection \<open>scanQuery\<close>

text \<open>
  The local variables of \<open>scanQuery\<close> that the loop updates. \<open>query\<close> is an
  \<open>ArrayBuffer\<close>, or an array of numbers that are bytes.
\<close>

record sq_state =
  s_result :: "jsval list"
  inputStack :: "byte list"
  s_half :: "char option"
  s_escaped :: bool

text \<open>
  \<open>for (let byte = FORMAT_TYPE_LEN_DICT[char] - 1; byte >= 0; byte--)\<close>, the first
  argument being \<open>byte + 1\<close>: \<open>inputStack.shift()\<close> on the empty array is \<open>undefined\<close>,
  on which \<open>JSBI.BigInt\<close> throws.
\<close>

fun scan_bytes :: "nat \<Rightarrow> int \<Rightarrow> byte list \<Rightarrow> error + (int \<times> byte list)" where
  "scan_bytes 0 val stack = Inr (val, stack)"
| "scan_bytes (Suc byte) val stack =
     (case stack of
        [] \<Rightarrow> Inl BigIntTypeError
      | b # rest \<Rightarrow> scan_bytes byte (val OR push_bit (byte * 8) (uint b)) rest)"

text \<open>
  \<open>inputStack.shift()!\<close> as an operand of \<open><<\<close> or \<open>|\<close>: \<open>undefined\<close> converts to 0.
\<close>

definition shift_int32 :: "byte list \<Rightarrow> int" where
  "shift_int32 stack = (case stack of [] \<Rightarrow> 0 | b # _ \<Rightarrow> uint b)"

text \<open>
  One round of the loop \<open>for (let char of format)\<close>. \<open>inputStack.splice(length)\<close>
  leaves the first \<open>length\<close> elements in \<open>inputStack\<close> and returns the others;
  \<open>value.substring(0, value.length - 1)\<close> is the string without its last character, and
  the empty string when \<open>value\<close> is empty.
\<close>

definition scan_step :: "nat \<Rightarrow> char \<Rightarrow> sq_state \<Rightarrow> error + sq_state" where
  "scan_step initialLength char st =
     (if s_escaped st then
        let st1 = st\<lparr>s_escaped := False\<rparr> in
        if char = CHR ''?'' then Inr (st1\<lparr>inputStack := tl (inputStack st)\<rparr>)
        else case FORMAT_TYPE_LEN_DICT char of
               Some len \<Rightarrow>
                 (case scan_bytes len 0 (inputStack st) of
                    Inl e \<Rightarrow> Inl e
                  | Inr (val, rest) \<Rightarrow>
                      Inr (st1\<lparr>s_result := s_result st @ [VInt val], inputStack := rest\<rparr>))
             | None \<Rightarrow>
                 if char = CHR ''s'' \<or> char = CHR ''x'' then
                   let stack1 = tl (inputStack st);
                       stack2 = tl stack1;
                       len = nat (push_bit 8 (shift_int32 (inputStack st)) OR shift_int32 stack1);
                       newInputStack = drop len stack2;
                       val = fromCharCode (take len stack2)
                   in Inr (st1\<lparr>s_result := s_result st
                               @ [VStr (if char = CHR ''s'' then butlast val else val)],
                             inputStack := newInputStack\<rparr>)
                 else if char = CHR ''*'' then
                   Inr (st1\<lparr>s_result := s_result st @ [VStr (fromCharCode (inputStack st))],
                            inputStack := []\<rparr>)
                 else if char = CHR ''#'' then
                   Inr (st1\<lparr>s_result := s_result st @ [VBytes (inputStack st)],
                            inputStack := []\<rparr>)
                 else Inl (UnrecognizedFormatChar char)
      else if char = CHR ''%'' then
        (if s_half st = None then Inr (st\<lparr>s_escaped := True\<rparr>) else Inl HalfNotNull)
      else if char = CHR '' '' then Inr st
      else case s_half st of
             None \<Rightarrow> Inr (st\<lparr>s_half := Some char\<rparr>)
           | Some h \<Rightarrow>
               let inputValue = (case inputStack st of [] \<Rightarrow> None | b # _ \<Rightarrow> Some b);
                   stack1 = tl (inputStack st);
                   formatValue = parseInt16 [h, char]
               in if loose_neq formatValue inputValue
                  then Inl (Mismatch (int initialLength - int (length stack1) - 1)
                              formatValue inputValue)
                  else Inr (st\<lparr>inputStack := stack1, s_half := None\<rparr>))"

fun scan_loop :: "nat \<Rightarrow> string \<Rightarrow> sq_state \<Rightarrow> error + sq_state" where
  "scan_loop initialLength [] st = Inr st"
| "scan_loop initialLength (char # format) st =
     (case scan_step initialLength char st of
        Inl e \<Rightarrow> Inl e
      | Inr st' \<Rightarrow> scan_loop initialLength format st')"

definition scan_init :: "byte list \<Rightarrow> sq_state" where
  "scan_init query = \<lparr>s_result = [], inputStack = query, s_half = None, s_escaped = False\<rparr>"

definition scanQuery :: "byte list \<Rightarrow> string \<Rightarrow> error + jsval list" where
  "scanQuery query format =
     (case scan_loop (length query) format (scan_init query) of
        Inl e \<Rightarrow> Inl e
      | Inr st \<Rightarrow>
          if inputStack st = [] then Inr (s_result st)
          else Inl (BytesRemaining (length (inputStack st))))"

text \<open>A string literal as a JavaScript string, for the examples.\<close>

definition str :: "string \<Rightarrow> jsstring" where
  "str s = map of_char s"

subsection \<open>Format strings and arguments singled out in the statements\<close>

text \<open>
  A format string in which every escaped character is one of \<open>b\<close>, \<open>w\<close>, \<open>d\<close>, \<open>q\<close>: it has
  fixed-width integer tokens, literal bytes and spaces only. The flag says whether the
  character before was an escape marker.
\<close>

fun fixed_only :: "bool \<Rightarrow> string \<Rightarrow> bool" where
  "fixed_only esc [] \<longleftrightarrow> True"
| "fixed_only esc (c # cs) \<longleftrightarrow>
     (if esc then FORMAT_TYPE_LEN_DICT c \<noteq> None \<and> fixed_only False cs
      else fixed_only (c = CHR ''%'') cs)"

text \<open>The format string that has the tokens \<open>ts\<close> and nothing else: \<open>%\<close> before each.\<close>

definition token_format :: "string \<Rightarrow> string" where
  "token_format ts = concat (map (\<lambda>c. [CHR ''%'', c]) ts)"

text \<open>
  An argument that a token encodes without loss: an integer from 0 that fits the width
  of its token; a string of character codes below 256, whose length (plus one for \<open>s\<close>)
  fits the two bytes of the prefix of \<open>x\<close> and \<open>s\<close>.
\<close>

fun arg_fits :: "char \<Rightarrow> jsval \<Rightarrow> bool" where
  "arg_fits c (VInt n) \<longleftrightarrow>
     (case FORMAT_TYPE_LEN_DICT c of Some len \<Rightarrow> 0 \<le> n \<and> n < 2 ^ (8 * len) | None \<Rightarrow> False)"
| "arg_fits c (VStr s) \<longleftrightarrow>
     list_all (\<lambda>u. u < 256) s
     \<and> (c = CHR ''x'' \<and> length s < 65536 \<or> c = CHR ''s'' \<and> length s + 1 < 65536
        \<or> c = CHR ''*'')"
| "arg_fits c v \<longleftrightarrow> False"

text \<open>
  One fitting argument for each token, the token \<open>*\<close> (the rest of the input, on decode)
  being the last one if it occurs.
\<close>

fun args_match :: "string \<Rightarrow> jsval list \<Rightarrow> bool" where
  "args_match [] [] \<longleftrightarrow> True"
| "args_match (c # cs) (v # vs) \<longleftrightarrow>
     arg_fits c v \<and> (if c = CHR ''*'' then cs = [] else True) \<and> args_match cs vs"
| "args_match cs vs \<longleftrightarrow> False"

section \<open>Properties of the BCD codec\<close>

lemma unat_ToUint32: "bcd < 2 ^ 32 \<Longrightarrow> unat (ToUint32 bcd) = bcd"
  by (simp add: ToUint32_def unat_of_nat take_bit_eq_mod)

text \<open>One round of the loop of \<open>BCD2int\<close> on a 32-bit value, in arithmetic.\<close>

lemma BCD2int_loop_round:
  assumes "bcd < 2 ^ 32" and "bcd \<noteq> 0"
  shows "BCD2int_loop bcd val nibble =
         BCD2int_loop (bcd div 16) (val + (bcd mod 16) * 10 ^ nibble) (nibble + 1)"
proof -
  have shifted: "unat (drop_bit 4 (ToUint32 bcd)) = bcd div 16"
    using assms(1) unat_drop_bit_eq [of 4 "ToUint32 bcd"]
    by (simp add: unat_ToUint32 drop_bit_eq_div)
  have "ToUint32 bcd AND 0xf = take_bit 4 (ToUint32 bcd)"
    by (simp add: take_bit_eq_mask mask_eq_exp_minus_1)
  then have "unat (ToUint32 bcd AND 0xf) = take_bit 4 (unat (ToUint32 bcd))"
    by (simp only: unsigned_take_bit_eq)
  then have masked: "unat (ToUint32 bcd AND 0xf) = bcd mod 16"
    using assms(1) by (simp add: unat_ToUint32 take_bit_eq_mod)
  show ?thesis
    using assms(2) shifted masked by (subst BCD2int_loop.simps) simp
qed

lemma BCD2int_loop_sum:
  "bcd < 2 ^ 32 \<Longrightarrow> bcd < 16 ^ k \<Longrightarrow>
   BCD2int_loop bcd val nibble =
   val + (\<Sum>i<k. (bcd div 16 ^ i mod 16) * 10 ^ (nibble + i))"
proof (induction k arbitrary: bcd val nibble)
  case 0
  then show ?case by (subst BCD2int_loop.simps) simp
next
  case (Suc k)
  show ?case
  proof (cases "bcd = 0")
    case True
    then show ?thesis by (subst BCD2int_loop.simps) simp
  next
    case False
    have smaller: "bcd div 16 < 2 ^ 32" "bcd div 16 < 16 ^ k"
      using Suc.prems by (auto simp: less_mult_imp_div_less)
    have "BCD2int_loop bcd val nibble =
          val + (bcd mod 16) * 10 ^ nibble +
          (\<Sum>i<k. (bcd div 16 div 16 ^ i mod 16) * 10 ^ (nibble + 1 + i))"
      using BCD2int_loop_round [OF Suc.prems(1) False] Suc.IH [OF smaller] by simp
    also have "\<dots> = val + (\<Sum>i<Suc k. (bcd div 16 ^ i mod 16) * 10 ^ (nibble + i))"
      by (simp add: sum.lessThan_Suc_shift div_mult2_eq del: sum.lessThan_Suc)
    finally show ?thesis .
  qed
qed

text \<open>
  Claim C7: \<open>int2BCD(value, length)\<close> fails if and only if \<open>length > 4\<close> or
  \<open>value > 10^(2*length) - 1\<close>, and succeeds on every other pair;
  \<open>int2BCD(1234, 2)\<close> is \<open>0x1234\<close>, \<open>int2BCD(100, 1)\<close> fails and \<open>int2BCD(0, 1)\<close> is 0.
\<close>

theorem int2BCD_fails_iff:
  "((\<exists>e. int2BCD val len = Inl e) \<longleftrightarrow> (len > 4 \<or> val > 10 ^ (2 * len) - 1))
   \<and> ((\<exists>bcd. int2BCD val len = Inr bcd) \<longleftrightarrow> (len \<le> 4 \<and> val \<le> 10 ^ (2 * len) - 1))
   \<and> int2BCD 1234 2 = Inr 0x1234
   \<and> int2BCD 100 1 = Inl (CannotFit 100 1)
   \<and> int2BCD 0 1 = Inr 0"
proof -
  have fails: "(\<exists>e. int2BCD val len = Inl e) \<longleftrightarrow> (len > 4 \<or> val > 10 ^ (2 * len) - 1)"
    by (simp add: int2BCD_def mult.commute)
  have succeeds:
    "(\<exists>bcd. int2BCD val len = Inr bcd) \<longleftrightarrow> (len \<le> 4 \<and> val \<le> 10 ^ (2 * len) - 1)"
    by (auto simp add: int2BCD_def mult.commute)
  have ex1: "int2BCD 1234 2 = Inr 0x1234"
    by (simp add: int2BCD_def int2BCD_loop.simps)
  have ex2: "int2BCD 100 1 = Inl (CannotFit 100 1)"
    by (simp add: int2BCD_def)
  have ex3: "int2BCD 0 1 = Inr 0"
    by (simp add: int2BCD_def int2BCD_loop.simps)
  from fails succeeds ex1 ex2 ex3 show ?thesis by blast
qed

lemma unat_ToUint32_mod: "unat (ToUint32 bcd) = bcd mod 2 ^ 32"
  by (simp add: ToUint32_def unat_of_nat take_bit_eq_mod)

lemma BCD2int_loop_first_round:
  assumes "bcd \<noteq> 0"
  shows "BCD2int_loop bcd val nibble =
         BCD2int_loop (bcd mod 2 ^ 32 div 16) (val + (bcd mod 16) * 10 ^ nibble) (nibble + 1)"
proof -
  have shifted: "unat (drop_bit 4 (ToUint32 bcd)) = bcd mod 2 ^ 32 div 16"
    using unat_drop_bit_eq [of 4 "ToUint32 bcd"]
    by (simp add: unat_ToUint32_mod drop_bit_eq_div)
  have "ToUint32 bcd AND 0xf = take_bit 4 (ToUint32 bcd)"
    by (simp add: take_bit_eq_mask mask_eq_exp_minus_1)
  then have "unat (ToUint32 bcd AND 0xf) = take_bit 4 (unat (ToUint32 bcd))"
    by (simp only: unsigned_take_bit_eq)
  also have "\<dots> = bcd mod 2 ^ 32 mod 2 ^ 4"
    by (simp only: unat_ToUint32_mod take_bit_eq_mod)
  also have "\<dots> = bcd mod 2 ^ 4"
    by (rule mod_mod_cancel) (simp add: le_imp_power_dvd)
  finally have masked: "unat (ToUint32 bcd AND 0xf) = bcd mod 16"
    by simp
  show ?thesis
    using assms shifted masked by (subst BCD2int_loop.simps) simp
qed

lemma nibble_sum_shift:
  "x mod 16 + (\<Sum>i<k. (x div 16 div 16 ^ i mod 16) * 10 ^ (1 + i)) =
   (\<Sum>i<Suc k. (x div 16 ^ i mod 16) * 10 ^ i)"
  for x :: nat
  by (simp add: sum.lessThan_Suc_shift div_mult2_eq del: sum.lessThan_Suc)

lemma BCD2int_low_32_bits:
  "BCD2int bcd = (\<Sum>i<8. (bcd mod 2 ^ 32 div 16 ^ i mod 16) * 10 ^ i)"
proof (cases "bcd = 0")
  case True
  then show ?thesis
    by (simp add: BCD2int_def BCD2int_loop.simps)
next
  case False
  let ?low = "bcd mod 2 ^ 32"
  have bound: "?low div 16 < 2 ^ 32" "?low div 16 < 16 ^ 7"
  proof -
    have "?low < 2 ^ 32"
      by simp
    then show "?low div 16 < 2 ^ 32" "?low div 16 < 16 ^ 7"
      by (simp_all add: less_mult_imp_div_less)
  qed
  have first: "?low mod 16 = bcd mod 16"
  proof -
    have "bcd mod 2 ^ 32 mod 2 ^ 4 = bcd mod 2 ^ 4"
      by (rule mod_mod_cancel) (simp add: le_imp_power_dvd)
    then show ?thesis by simp
  qed
  have "BCD2int bcd = bcd mod 16 + (\<Sum>i<7. (?low div 16 div 16 ^ i mod 16) * 10 ^ (1 + i))"
    using BCD2int_loop_first_round [OF False, of 0 0] BCD2int_loop_sum [OF bound, of "bcd mod 16" 1]
    by (simp add: BCD2int_def)
  also have "\<dots> = ?low mod 16 + (\<Sum>i<7. (?low div 16 div 16 ^ i mod 16) * 10 ^ (1 + i))"
    by (simp only: first)
  also have "\<dots> = (\<Sum>i<Suc 7. (?low div 16 ^ i mod 16) * 10 ^ i)"
    by (rule nibble_sum_shift)
  finally show ?thesis
    by simp
qed

text \<open>
  Claim C8, as the code has it: \<open>BCD2int\<close> never fails (it is a total function, its loop
  terminates). On a value below \<open>2 ^ 32\<close>, the width the source gives its parameter, it
  returns the sum over the nibble positions of the nibble's value times ten to the
  position, the least significant nibble first. Nibbles from 10 to 15 are not rejected
  and contribute in the same way; \<open>BCD2int(0x1234)\<close> is 1234. Of a larger value only the
  low 32 bits are read.
\<close>

theorem BCD2int_nibble_sum:
  "BCD2int bcd = (\<Sum>i<8. (bcd mod 2 ^ 32 div 16 ^ i mod 16) * 10 ^ i)
   \<and> (bcd < 2 ^ 32 \<longrightarrow> BCD2int bcd = (\<Sum>i<8. (bcd div 16 ^ i mod 16) * 10 ^ i))
   \<and> BCD2int 0x1234 = 1234
   \<and> BCD2int 0xF = 15
   \<and> BCD2int 0x1A = 20"
proof -
  have general: "BCD2int bcd = (\<Sum>i<8. (bcd div 16 ^ i mod 16) * 10 ^ i)" if "bcd < 2 ^ 32"
    using that BCD2int_low_32_bits [of bcd] by simp
  have ex1: "BCD2int 0x1234 = 1234"
    by (simp add: BCD2int_def BCD2int_loop.simps ToUint32_def)
  have ex2: "BCD2int 0xF = 15"
    by (simp add: BCD2int_def BCD2int_loop.simps ToUint32_def)
  have ex3: "BCD2int 0x1A = 20"
    by (simp add: BCD2int_def BCD2int_loop.simps ToUint32_def)
  from BCD2int_low_32_bits [of bcd] general ex1 ex2 ex3 show ?thesis by blast
qed

theorem BCD2int_nibble_sum_witness:
  "(0xAB12 :: nat) < 2 ^ 32 \<and> BCD2int 0xAB12 = 10 * 1000 + 11 * 100 + 1 * 10 + 2"
proof -
  have "BCD2int 0xAB12 = (\<Sum>i<8. (0xAB12 div 16 ^ i mod 16) * 10 ^ i)"
    using BCD2int_nibble_sum [of "0xAB12"] by simp
  then show ?thesis
    by (simp add: lessThan_nat_numeral lessThan_Suc)
qed

text \<open>
  Claim C8 as stated fails on a non-negative integer of more than 32 bits: the nine
  nibbles of \<open>0x100000012\<close> sum to 100000012, and \<open>BCD2int\<close> returns 12.
\<close>

theorem BCD2int_beyond_32_bits:
  "BCD2int 0x100000012 = 12
   \<and> (\<Sum>i<9. (0x100000012 div 16 ^ i mod 16) * 10 ^ i) = (100000012 :: nat)"
  by (simp add: BCD2int_def BCD2int_loop.simps ToUint32_def lessThan_nat_numeral lessThan_Suc)

text \<open>
  Claim C9: on a valid pair \<open>int2BCD\<close> should return the packed BCD encoding as a
  non-negative integer. With eight digits of which the first is 8 or 9, the nibble
  shifted by 28 sets the sign bit of the 32-bit result of \<open><<\<close> and \<open>|\<close>, and the number
  returned is negative: \<open>int2BCD(80000000, 4)\<close> is \<open>-2147483648\<close>, not \<open>0x80000000\<close>.
\<close>

theorem int2BCD_sign_bit:
  "int2BCD 80000000 4 = Inr (- 2147483648) \<and> int2BCD 80000000 4 \<noteq> Inr 0x80000000"
  by (simp add: int2BCD_def int2BCD_loop.simps)

section \<open>Properties of the format interpreter\<close>

subsection \<open>The interpreters, piecewise\<close>

lemma format_loop_append:
  "format_loop (xs @ ys) st =
     (case format_loop xs st of Inl e \<Rightarrow> Inl e | Inr st' \<Rightarrow> format_loop ys st')"
  by (induction xs arbitrary: st) (auto split: sum.splits)

lemma scan_loop_append:
  "scan_loop n (xs @ ys) st =
     (case scan_loop n xs st of Inl e \<Rightarrow> Inl e | Inr st' \<Rightarrow> scan_loop n ys st')"
  by (induction xs arbitrary: st) (auto split: sum.splits)

lemma format_step_escaped_half:
  assumes "format_step c st = Inr st'" and "f_escaped st \<longrightarrow> f_half st = None"
  shows "f_escaped st' \<longrightarrow> f_half st' = None"
  using assms
  by (auto simp: format_step_def Let_def split: if_splits option.splits sum.splits jsval.splits)

lemma format_loop_escaped_half:
  "format_loop fmt st = Inr st' \<Longrightarrow> (f_escaped st \<longrightarrow> f_half st = None) \<Longrightarrow>
   (f_escaped st' \<longrightarrow> f_half st' = None)"
proof (induction fmt arbitrary: st)
  case Nil
  then show ?case by simp
next
  case (Cons c fmt)
  from Cons.prems(1) obtain st1 where
    step: "format_step c st = Inr st1" and rest: "format_loop fmt st1 = Inr st'"
    by (auto split: sum.splits)
  from format_step_escaped_half [OF step Cons.prems(2)] Cons.IH [OF rest]
  show ?case by blast
qed

lemma scan_step_escaped_half:
  assumes "scan_step n c st = Inr st'" and "s_escaped st \<longrightarrow> s_half st = None"
  shows "s_escaped st' \<longrightarrow> s_half st' = None"
  using assms
  by (auto simp: scan_step_def Let_def split: if_splits option.splits sum.splits prod.splits)

lemma scan_loop_escaped_half:
  "scan_loop n fmt st = Inr st' \<Longrightarrow> (s_escaped st \<longrightarrow> s_half st = None) \<Longrightarrow>
   (s_escaped st' \<longrightarrow> s_half st' = None)"
proof (induction fmt arbitrary: st)
  case Nil
  then show ?case by simp
next
  case (Cons c fmt)
  from Cons.prems(1) obtain st1 where
    step: "scan_step n c st = Inr st1" and rest: "scan_loop n fmt st1 = Inr st'"
    by (auto split: sum.splits)
  from scan_step_escaped_half [OF step Cons.prems(2)] Cons.IH [OF rest]
  show ?case by blast
qed

lemma format_percent_half:
  assumes "format_loop pre (format_init args) = Inr st" and "f_half st \<noteq> None"
  shows "formatQuery (pre @ CHR ''%'' # post) args = Inl HalfNotNull"
proof -
  have "\<not> f_escaped st"
    using format_loop_escaped_half [OF assms(1)] assms(2) by (simp add: format_init_def)
  then have "format_step CHR ''%'' st = Inl HalfNotNull"
    using assms(2) by (simp add: format_step_def)
  then show ?thesis
    using assms(1) by (simp add: formatQuery_def format_loop_append)
qed

lemma scan_percent_half:
  assumes "scan_loop (length q) pre (scan_init q) = Inr st" and "s_half st \<noteq> None"
  shows "scanQuery q (pre @ CHR ''%'' # post) = Inl HalfNotNull"
proof -
  have "\<not> s_escaped st"
    using scan_loop_escaped_half [OF assms(1)] assms(2) by (simp add: scan_init_def)
  then have "scan_step (length q) CHR ''%'' st = Inl HalfNotNull"
    using assms(2) by (simp add: scan_step_def)
  then show ?thesis
    using assms(1) by (simp add: scanQuery_def scan_loop_append)
qed

lemma format_step_unrecognized:
  assumes "f_escaped st" and "c \<notin> set ''bwdqxs*''"
  shows "format_step c st = Inl (UnrecognizedFormatChar c)"
  using assms by (simp add: format_step_def Let_def FORMAT_TYPE_LEN_DICT_def)

lemma scan_step_unrecognized:
  assumes "s_escaped st" and "c \<notin> set ''?bwdqsx*#''"
  shows "scan_step n c st = Inl (UnrecognizedFormatChar c)"
  using assms by (simp add: scan_step_def Let_def FORMAT_TYPE_LEN_DICT_def)

lemma format_step_escape_next:
  assumes "\<not> f_escaped st" and "f_half st = None"
  shows "format_step CHR ''%'' st = Inr (st\<lparr>f_escaped := True\<rparr>)"
  using assms by (simp add: format_step_def)

lemma format_step_clears_escape:
  assumes "f_escaped st" and "format_step c st = Inr st'"
  shows "\<not> f_escaped st'"
  using assms
  by (auto simp: format_step_def Let_def split: if_splits option.splits sum.splits jsval.splits)

lemma scan_step_clears_escape:
  assumes "s_escaped st" and "scan_step n c st = Inr st'"
  shows "\<not> s_escaped st'"
  using assms
  by (auto simp: scan_step_def Let_def split: if_splits option.splits sum.splits prod.splits)

lemma hexDigit_not_special: "hexDigit h \<noteq> None \<Longrightarrow> h \<noteq> CHR ''%'' \<and> h \<noteq> CHR '' ''"
  by (auto simp: hexDigit_def)

lemma format_trailing_half:
  assumes "format_loop pre (format_init args) = Inr st"
    and "f_half st = None" and "\<not> f_escaped st" and "hexDigit h \<noteq> None"
  shows "formatQuery (pre @ [h]) args = formatQuery pre args"
proof -
  have "format_step h st = Inr (st\<lparr>f_half := Some h\<rparr>)"
    using assms(2,3) hexDigit_not_special [OF assms(4)] by (simp add: format_step_def)
  then show ?thesis
    using assms(1) by (simp add: formatQuery_def format_loop_append)
qed

lemma scan_trailing_half:
  assumes "scan_loop (length q) pre (scan_init q) = Inr st"
    and "s_half st = None" and "\<not> s_escaped st" and "hexDigit h \<noteq> None"
  shows "scanQuery q (pre @ [h]) = scanQuery q pre"
proof -
  have "scan_step (length q) h st = Inr (st\<lparr>s_half := Some h\<rparr>)"
    using assms(2,3) hexDigit_not_special [OF assms(4)] by (simp add: scan_step_def)
  then show ?thesis
    using assms(1) by (simp add: scanQuery_def scan_loop_append)
qed

subsection \<open>Bytes and lengths\<close>

lemma word_of_int_and_255: "(word_of_int (x AND 0xff) :: byte) = word_of_int x"
proof -
  have "x AND 0xff = take_bit 8 x"
    by (simp add: take_bit_eq_mask mask_eq_exp_minus_1)
  then show ?thesis
    by (simp add: word_of_int_eq_iff)
qed

lemma ToUint8_charcodes: "map ToUint8 (stringToCharCodeArray s) = map ucast s"
  by (simp add: stringToCharCodeArray_def)

lemma prefix_high_byte:
  "(word_of_int (drop_bit 8 (int n + 1)) :: byte) = word_of_nat (Suc n div 256)"
proof -
  have "drop_bit 8 (int n + 1) = int (Suc n div 256)"
    by (simp add: drop_bit_eq_div zdiv_int add.commute)
  then show ?thesis by (simp only: of_int_of_nat_eq)
qed

lemma prefix_length:
  "nat (push_bit 8 (uint (hi::byte)) OR uint (lo::byte)) = 256 * unat hi + unat lo"
proof -
  have "push_bit 8 (uint hi) OR uint lo = push_bit 8 (uint hi) + uint lo"
    by (rule disjunctive_add [symmetric]) (auto simp: bit_simps dest: bit_imp_le_length)
  then show ?thesis
    by (simp add: push_bit_eq_mult nat_add_distrib nat_mult_distrib)
qed

lemma format_s:
  "formatQuery ''%s'' [VStr s] =
     Inr ([word_of_nat ((length s + 1) div 256), word_of_nat (length s + 1)] @ map ucast s @ [0])"
  by (simp add: formatQuery_def format_init_def format_step_def FORMAT_TYPE_LEN_DICT_def
        word_of_int_and_255 ToUint8_charcodes Let_def prefix_high_byte)

lemma scan_s:
  "scanQuery ([hi, lo] @ body) ''%s'' =
     (if length body \<le> 256 * unat hi + unat lo
      then Inr [VStr (butlast (fromCharCode body))]
      else Inl (BytesRemaining (length body - (256 * unat hi + unat lo))))"
  by (simp add: scanQuery_def scan_init_def scan_step_def FORMAT_TYPE_LEN_DICT_def
        shift_int32_def Let_def prefix_length)

lemma scan_AA:
  "scanQuery (b # rest) ''AA'' =
     (if b \<noteq> 0xAA then Inl (Mismatch 0 (Num 170) (Some b))
      else if rest = [] then Inr [] else Inl (BytesRemaining (length rest)))"
  by (simp add: scanQuery_def scan_init_def scan_step_def parseInt16_def hexDigit_def StrWhiteSpaceChar_def Let_def word_uint_eq_iff)

lemma scan_AA_empty: "scanQuery [] ''AA'' = Inl (Mismatch (- 1) (Num 170) None)"
  by (simp add: scanQuery_def scan_init_def scan_step_def parseInt16_def hexDigit_def StrWhiteSpaceChar_def Let_def)

lemma scan_step_escape_next:
  assumes "\<not> s_escaped st" and "s_half st = None"
  shows "scan_step n CHR ''%'' st = Inr (st\<lparr>s_escaped := True\<rparr>)"
  using assms by (simp add: scan_step_def)

subsection \<open>The string token\<close>






subsection \<open>Literal bytes\<close>

text \<open>
  Claim C5, as the code has it: \<open>scanQuery(buffer, "AA")\<close> succeeds if and only if the
  buffer is the single byte \<open>0xAA\<close>. On a buffer that starts with another byte it fails
  reporting offset 0, expected 170 and the byte found; on \<open>0xAA\<close> followed by more bytes
  it fails with the count of bytes remaining. In general a literal that does not match
  the byte \<open>b\<close> at the head of the input reports the total input length minus the length
  remaining after \<open>b\<close> minus one, the count of the bytes consumed before \<open>b\<close>.
\<close>

theorem scan_literal_AA:
  "((\<exists>r. scanQuery buffer ''AA'' = Inr r) \<longleftrightarrow> buffer = [0xAA])
   \<and> scanQuery (b # rest) ''AA'' =
       (if b \<noteq> 0xAA then Inl (Mismatch 0 (Num 170) (Some b))
        else if rest = [] then Inr [] else Inl (BytesRemaining (length rest)))
   \<and> (scan_loop (length q) pre (scan_init q) = Inr st \<and> s_half st = Some h
        \<and> inputStack st = x # xs \<and> hexDigit c \<noteq> None
        \<and> loose_neq (parseInt16 [h, c]) (Some x)
      \<longrightarrow> scanQuery q (pre @ c # post) =
            Inl (Mismatch (int (length q) - int (length xs) - 1) (parseInt16 [h, c]) (Some x)))"
proof -
  have iff: "(\<exists>r. scanQuery buffer ''AA'' = Inr r) \<longleftrightarrow> buffer = [0xAA]"
  proof (cases buffer)
    case Nil
    then show ?thesis by (simp add: scan_AA_empty)
  next
    case (Cons y ys)
    then show ?thesis by (simp add: scan_AA)
  qed
  have offset: "scanQuery q (pre @ c # post) =
      Inl (Mismatch (int (length q) - int (length xs) - 1) (parseInt16 [h, c]) (Some x))"
    if loop: "scan_loop (length q) pre (scan_init q) = Inr st" and half: "s_half st = Some h"
      and stack: "inputStack st = x # xs" and hex: "hexDigit c \<noteq> None"
      and neq: "loose_neq (parseInt16 [h, c]) (Some x)"
  proof -
    have "\<not> s_escaped st"
      using scan_loop_escaped_half [OF loop] half by (simp add: scan_init_def)
    then have "scan_step (length q) c st =
        Inl (Mismatch (int (length q) - int (length xs) - 1) (parseInt16 [h, c]) (Some x))"
      using half stack neq hexDigit_not_special [OF hex] by (simp add: scan_step_def)
    then show ?thesis
      using loop by (simp add: scanQuery_def scan_loop_append)
  qed
  from iff scan_AA [of b rest] offset show ?thesis
    by blast
qed

theorem scan_literal_AA_witness:
  "scanQuery [0x01, 0x02, 0x03] ''01 AB'' = Inl (Mismatch 1 (Num 171) (Some 0x02))"
proof -
  let ?st = "\<lparr>s_result = [], inputStack = [0x02, 0x03 :: byte], s_half = Some CHR ''A'',
             s_escaped = False\<rparr>"
  have loop: "scan_loop (length [0x01, 0x02, 0x03 :: byte]) ''01 A'' (scan_init [0x01, 0x02, 0x03]) = Inr ?st"
    by (simp add: scan_init_def scan_step_def parseInt16_def hexDigit_def StrWhiteSpaceChar_def)
  have hex: "hexDigit CHR ''B'' \<noteq> None"
    by (simp add: hexDigit_def)
  have val: "parseInt16 ''AB'' = Num 171"
    by (simp add: parseInt16_def hexDigit_def StrWhiteSpaceChar_def)
  have neq: "loose_neq (parseInt16 ''AB'') (Some (0x02 :: byte))"
    by (simp add: val)
  from scan_literal_AA [where q = "[0x01, 0x02, 0x03]" and pre = "''01 A''" and st = ?st
      and h = "CHR ''A''" and x = "0x02" and xs = "[0x03]" and c = "CHR ''B''" and post = "[]"]
    loop hex neq val
  show ?thesis by simp
qed

text \<open>
  Claim C5 as stated fails: the buffer \<open>[0xAA, 0x01]\<close> has \<open>0xAA\<close> as its first byte, and
  \<open>scanQuery\<close> does not succeed on it.
\<close>

theorem scan_literal_AA_trailing_byte:
  "[0xAA, 0x01] ! 0 = (0xAA :: byte) \<and> scanQuery [0xAA, 0x01] ''AA'' = Inl (BytesRemaining 1)"
  by (simp add: scan_AA)

subsection \<open>The escape marker\<close>

text \<open>
  Claim C6: in \<open>formatQuery\<close> and in \<open>scanQuery\<close>, a \<open>%\<close> that arrives while a hex
  half-digit is pending is a failed assertion. Otherwise it sets the escaped mode and
  nothing else, and a round that starts in escaped mode ends out of it: the escape
  applies to the next character only. An escaped character that is no token character
  is the error \<open>Unrecognized format char\<close>.
\<close>

theorem escape_marker_rules:
  "(format_loop pre (format_init args) = Inr fs \<and> f_half fs \<noteq> None
      \<longrightarrow> formatQuery (pre @ CHR ''%'' # post) args = Inl HalfNotNull)
   \<and> (scan_loop (length q) pre (scan_init q) = Inr ss \<and> s_half ss \<noteq> None
      \<longrightarrow> scanQuery q (pre @ CHR ''%'' # post) = Inl HalfNotNull)
   \<and> (\<not> f_escaped fs \<and> f_half fs = None
      \<longrightarrow> format_step CHR ''%'' fs = Inr (fs\<lparr>f_escaped := True\<rparr>))
   \<and> (\<not> s_escaped ss \<and> s_half ss = None
      \<longrightarrow> scan_step n CHR ''%'' ss = Inr (ss\<lparr>s_escaped := True\<rparr>))
   \<and> (f_escaped fs \<and> format_step c fs = Inr fs' \<longrightarrow> \<not> f_escaped fs')
   \<and> (s_escaped ss \<and> scan_step n c ss = Inr ss' \<longrightarrow> \<not> s_escaped ss')
   \<and> (format_loop pre (format_init args) = Inr fs \<and> f_escaped fs \<and> c \<notin> set ''bwdqxs*''
      \<longrightarrow> formatQuery (pre @ c # post) args = Inl (UnrecognizedFormatChar c))
   \<and> (scan_loop (length q) pre (scan_init q) = Inr ss \<and> s_escaped ss
        \<and> c \<notin> set ''?bwdqsx*#''
      \<longrightarrow> scanQuery q (pre @ c # post) = Inl (UnrecognizedFormatChar c))"
proof -
  have f_unrec: "formatQuery (pre @ c # post) args = Inl (UnrecognizedFormatChar c)"
    if "format_loop pre (format_init args) = Inr fs" "f_escaped fs" "c \<notin> set ''bwdqxs*''"
    using that format_step_unrecognized [of fs c]
    by (simp add: formatQuery_def format_loop_append)
  have s_unrec: "scanQuery q (pre @ c # post) = Inl (UnrecognizedFormatChar c)"
    if "scan_loop (length q) pre (scan_init q) = Inr ss" "s_escaped ss"
      "c \<notin> set ''?bwdqsx*#''"
    using that scan_step_unrecognized [of ss c "length q"]
    by (simp add: scanQuery_def scan_loop_append)
  from format_percent_half [of pre args fs post] scan_percent_half [of q pre ss post]
    format_step_escape_next [of fs] scan_step_escape_next [of ss n]
    format_step_clears_escape [of fs c fs'] scan_step_clears_escape [of ss n c ss']
    f_unrec s_unrec
  show ?thesis by blast
qed

theorem escape_marker_rules_witness:
  "formatQuery ''A%b'' [VInt 1] = Inl HalfNotNull
   \<and> scanQuery [0x01] ''A%b'' = Inl HalfNotNull
   \<and> format_step CHR ''%'' (format_init []) = Inr ((format_init [])\<lparr>f_escaped := True\<rparr>)
   \<and> scan_step 0 CHR ''%'' (scan_init []) = Inr ((scan_init [])\<lparr>s_escaped := True\<rparr>)
   \<and> \<not> f_escaped ((format_init [])\<lparr>f_result := [Num 1]\<rparr>)
   \<and> \<not> s_escaped ((scan_init [])\<lparr>s_result := [VInt 1]\<rparr>)
   \<and> formatQuery ''%z'' [] = Inl (UnrecognizedFormatChar CHR ''z'')
   \<and> scanQuery [0x01] ''%z'' = Inl (UnrecognizedFormatChar CHR ''z'')"
proof -
  let ?fhalf = "(format_init [VInt 1])\<lparr>f_half := Some CHR ''A''\<rparr>"
  let ?shalf = "(scan_init [0x01])\<lparr>s_half := Some CHR ''A''\<rparr>"
  let ?fesc = "(format_init [VInt 1])\<lparr>f_escaped := True\<rparr>"
  let ?sesc = "(scan_init [0x01])\<lparr>s_escaped := True\<rparr>"
  have f1: "format_loop ''A'' (format_init [VInt 1]) = Inr ?fhalf \<and> f_half ?fhalf \<noteq> None"
    by (simp add: format_init_def format_step_def)
  have s1: "scan_loop (length [0x01 :: byte]) ''A'' (scan_init [0x01]) = Inr ?shalf
            \<and> s_half ?shalf \<noteq> None"
    by (simp add: scan_init_def scan_step_def)
  have f2: "\<not> f_escaped (format_init []) \<and> f_half (format_init []) = None"
    by (simp add: format_init_def)
  have s2: "\<not> s_escaped (scan_init []) \<and> s_half (scan_init []) = None"
    by (simp add: scan_init_def)
  have f3: "f_escaped ?fesc
            \<and> format_step CHR ''b'' ?fesc = Inr ((format_init [])\<lparr>f_result := [Num 1]\<rparr>)"
    by (simp add: format_init_def format_step_def FORMAT_TYPE_LEN_DICT_def)
  have s3: "s_escaped ?sesc
            \<and> scan_step 1 CHR ''b'' ?sesc = Inr ((scan_init [])\<lparr>s_result := [VInt 1]\<rparr>)"
    by (simp add: scan_init_def scan_step_def FORMAT_TYPE_LEN_DICT_def)
  have f4: "format_loop ''%'' (format_init []) = Inr ((format_init [])\<lparr>f_escaped := True\<rparr>)
            \<and> f_escaped ((format_init [])\<lparr>f_escaped := True\<rparr>)
            \<and> CHR ''z'' \<notin> set ''bwdqxs*''"
    by (simp add: format_init_def format_step_def)
  have s4: "scan_loop (length [0x01 :: byte]) ''%'' (scan_init [0x01]) = Inr ?sesc
            \<and> s_escaped ?sesc \<and> CHR ''z'' \<notin> set ''?bwdqsx*#''"
    by (simp add: scan_init_def scan_step_def)
  from f1 escape_marker_rules [where pre = "''A''" and args = "[VInt 1]" and fs = ?fhalf
      and post = "''b''"]
  have c1: "formatQuery ''A%b'' [VInt 1] = Inl HalfNotNull" by simp
  from s1 escape_marker_rules [where pre = "''A''" and q = "[0x01]" and ss = ?shalf
      and post = "''b''"]
  have c2: "scanQuery [0x01] ''A%b'' = Inl HalfNotNull" by simp
  from f2 escape_marker_rules [where fs = "format_init []"]
  have c3: "format_step CHR ''%'' (format_init []) = Inr ((format_init [])\<lparr>f_escaped := True\<rparr>)"
    by simp
  from s2 escape_marker_rules [where ss = "scan_init []" and n = 0]
  have c4: "scan_step 0 CHR ''%'' (scan_init []) = Inr ((scan_init [])\<lparr>s_escaped := True\<rparr>)"
    by simp
  from f3 escape_marker_rules [where fs = ?fesc and c = "CHR ''b''"
      and fs' = "(format_init [])\<lparr>f_result := [Num 1]\<rparr>"]
  have c5: "\<not> f_escaped ((format_init [])\<lparr>f_result := [Num 1]\<rparr>)" by blast
  from s3 escape_marker_rules [where ss = ?sesc and c = "CHR ''b''" and n = 1
      and ss' = "(scan_init [])\<lparr>s_result := [VInt 1]\<rparr>"]
  have c6: "\<not> s_escaped ((scan_init [])\<lparr>s_result := [VInt 1]\<rparr>)" by blast
  from f4 escape_marker_rules [where pre = "''%''" and args = "[]"
      and fs = "(format_init [])\<lparr>f_escaped := True\<rparr>" and c = "CHR ''z''" and post = "[]"]
  have c7: "formatQuery ''%z'' [] = Inl (UnrecognizedFormatChar CHR ''z'')" by simp
  from s4 escape_marker_rules [where pre = "''%''" and q = "[0x01]" and ss = ?sesc
      and c = "CHR ''z''" and post = "[]"]
  have c8: "scanQuery [0x01] ''%z'' = Inl (UnrecognizedFormatChar CHR ''z'')" by simp
  from c1 c2 c3 c4 c5 c6 c7 c8 show ?thesis by blast
qed

subsection \<open>A trailing half-digit\<close>

text \<open>
  Claim C10: when the format string ends with one unpaired hex half-digit, which is when
  the characters before it leave the interpreter outside escaped mode with no half-digit
  pending, the half-digit has no effect and raises no error: \<open>formatQuery\<close> returns the
  bytes it had collected before it, and \<open>scanQuery\<close> leaves the input and the result as
  they were, so that it returns what it returns without the half-digit.
\<close>

theorem trailing_half_digit_ignored:
  "(format_loop pre (format_init args) = Inr fs \<and> f_half fs = None \<and> \<not> f_escaped fs
      \<and> hexDigit h \<noteq> None
      \<longrightarrow> formatQuery (pre @ [h]) args = formatQuery pre args
          \<and> formatQuery (pre @ [h]) args = Inr (map ToUint8 (f_result fs)))
   \<and> (scan_loop (length q) pre (scan_init q) = Inr ss \<and> s_half ss = None
      \<and> \<not> s_escaped ss \<and> hexDigit h \<noteq> None
      \<longrightarrow> scanQuery q (pre @ [h]) = scanQuery q pre
          \<and> scan_loop (length q) (pre @ [h]) (scan_init q) = Inr (ss\<lparr>s_half := Some h\<rparr>))"
proof -
  have f: "formatQuery (pre @ [h]) args = Inr (map ToUint8 (f_result fs))"
    if "format_loop pre (format_init args) = Inr fs" "f_half fs = None" "\<not> f_escaped fs"
      "hexDigit h \<noteq> None"
    using format_trailing_half [OF that] that(1) by (simp add: formatQuery_def)
  have s: "scan_loop (length q) (pre @ [h]) (scan_init q) = Inr (ss\<lparr>s_half := Some h\<rparr>)"
    if "scan_loop (length q) pre (scan_init q) = Inr ss" "s_half ss = None"
      "\<not> s_escaped ss" "hexDigit h \<noteq> None"
    using that hexDigit_not_special [of h] by (simp add: scan_loop_append scan_step_def)
  from format_trailing_half [of pre args fs h] scan_trailing_half [of q pre ss h] f s
  show ?thesis by blast
qed

theorem trailing_half_digit_ignored_witness:
  "formatQuery ''AA%b1'' [VInt 7] = Inr [0xAA, 0x07]
   \<and> scanQuery [0xAA, 0x07] ''AA%b1'' = Inr [VInt 7]"
proof -
  let ?fs0 = "\<lparr>f_result = [Num 170, Num 7], f_half = None, argStack = [], f_escaped = False\<rparr>"
  let ?ss0 = "\<lparr>s_result = [VInt 7], inputStack = [], s_half = None, s_escaped = False\<rparr>"
  have f: "format_loop ''AA%b'' (format_init [VInt 7]) = Inr ?fs0 \<and> f_half ?fs0 = None
           \<and> \<not> f_escaped ?fs0 \<and> hexDigit CHR ''1'' \<noteq> None"
    by (simp add: format_init_def format_step_def FORMAT_TYPE_LEN_DICT_def parseInt16_def
        hexDigit_def StrWhiteSpaceChar_def)
  have s: "scan_loop (length [0xAA, 0x07 :: byte]) ''AA%b'' (scan_init [0xAA, 0x07]) = Inr ?ss0
           \<and> s_half ?ss0 = None \<and> \<not> s_escaped ?ss0 \<and> hexDigit CHR ''1'' \<noteq> None"
    by (simp add: scan_init_def scan_step_def FORMAT_TYPE_LEN_DICT_def parseInt16_def
        hexDigit_def StrWhiteSpaceChar_def)
  have s': "scanQuery [0xAA, 0x07] ''AA%b'' = Inr [VInt 7]"
    using s by (simp add: scanQuery_def)
  from f trailing_half_digit_ignored [where pre = "''AA%b''" and args = "[VInt 7]"
      and fs = ?fs0 and h = "CHR ''1''"]
  have "formatQuery (''AA%b'' @ ''1'') [VInt 7] = Inr (map ToUint8 (f_result ?fs0))"
    by blast
  then have c1: "formatQuery ''AA%b1'' [VInt 7] = Inr [0xAA, 0x07]"
    by simp
  from s trailing_half_digit_ignored [where pre = "''AA%b''" and q = "[0xAA, 0x07]"
      and ss = ?ss0 and h = "CHR ''1''"]
  have "scanQuery [0xAA, 0x07] (''AA%b'' @ ''1'') = scanQuery [0xAA, 0x07] ''AA%b''"
    by blast
  with s' c1 show ?thesis by simp
qed

subsection \<open>Fixed-width integers\<close>

lemma format_bytes_map:
  "format_bytes k v = map (\<lambda>i. Num (drop_bit (8 * (k - 1 - i)) v AND 0xff)) [0..<k]"
proof (induction k)
  case 0
  then show ?case by simp
next
  case (Suc k)
  have "map (\<lambda>i. Num (drop_bit (8 * (Suc k - 1 - i)) v AND 0xff)) [0..<Suc k] =
        Num (drop_bit (8 * k) v AND 0xff)
        # map (\<lambda>i. Num (drop_bit (8 * (k - 1 - i)) v AND 0xff)) [0..<k]"
    by (simp add: upt_conv_Cons map_Suc_upt [symmetric] del: upt_Suc)
  with Suc.IH show ?case
    by (simp add: mult.commute)
qed

lemma scan_bytes_fold:
  "length bs = k \<Longrightarrow>
   scan_bytes k val (bs @ rest) =
     Inr (foldl (OR) val (map (\<lambda>i. push_bit (8 * (k - 1 - i)) (uint (bs ! i))) [0..<k]), rest)"
proof (induction k arbitrary: bs val)
  case 0
  then show ?case by simp
next
  case (Suc k)
  then obtain b bs' where bs: "bs = b # bs'" and len: "length bs' = k"
    by (cases bs) auto
  have "map (\<lambda>i. push_bit (8 * (Suc k - 1 - i)) (uint (bs ! i))) [0..<Suc k] =
        push_bit (8 * k) (uint b)
        # map (\<lambda>i. push_bit (8 * (k - 1 - i)) (uint (bs' ! i))) [0..<k]"
    by (simp add: bs upt_conv_Cons map_Suc_upt [symmetric] del: upt_Suc)
  with Suc.IH [OF len] show ?case
    by (simp add: bs mult.commute)
qed

lemma byte_above:
  "push_bit (8 * k) (uint (word_of_int (drop_bit (8 * k) v AND 0xff) :: byte)) OR take_bit (8 * k) v
   = take_bit (8 * Suc k) v"
proof -
  have "drop_bit (8 * k) v AND 0xff = take_bit 8 (drop_bit (8 * k) v)"
    by (simp add: take_bit_eq_mask mask_eq_exp_minus_1)
  then have byte: "uint (word_of_int (drop_bit (8 * k) v AND 0xff) :: byte) = take_bit 8 (drop_bit (8 * k) v)"
    by (simp add: uint_word_of_int_eq)
  have "push_bit (8 * k) (take_bit 8 (drop_bit (8 * k) v)) OR take_bit (8 * k) v = take_bit (8 * Suc k) v"
  proof (rule bit_eqI)
    fix n
    have "8 * k \<le> n \<Longrightarrow> 8 * k + (n - 8 * k) = n"
      by simp
    then show "bit (push_bit (8 * k) (take_bit 8 (drop_bit (8 * k) v)) OR take_bit (8 * k) v) n
          \<longleftrightarrow> bit (take_bit (8 * Suc k) v) n"
      by (auto simp add: bit_or_iff bit_push_bit_iff bit_take_bit_iff bit_drop_bit_eq)
  qed
  with byte show ?thesis
    by simp
qed

lemma scan_bytes_format_bytes:
  "scan_bytes k val (map ToUint8 (format_bytes k v) @ rest) = Inr (val OR take_bit (8 * k) v, rest)"
proof (induction k arbitrary: val)
  case 0
  then show ?case by simp
next
  case (Suc k)
  have "scan_bytes (Suc k) val (map ToUint8 (format_bytes (Suc k) v) @ rest) =
        scan_bytes k (val OR push_bit (8 * k) (uint (word_of_int (drop_bit (8 * k) v AND 0xff) :: byte)))
          (map ToUint8 (format_bytes k v) @ rest)"
    by (simp add: mult.commute)
  also have "\<dots> = Inr ((val OR push_bit (8 * k) (uint (word_of_int (drop_bit (8 * k) v AND 0xff) :: byte)))
                     OR take_bit (8 * k) v, rest)"
    by (rule Suc.IH)
  also have "\<dots> = Inr (val OR take_bit (8 * Suc k) v, rest)"
    using byte_above [of k v] by (simp only: or.assoc)
  finally show ?case .
qed

lemma FORMAT_TYPE_LEN_DICT_Some:
  "FORMAT_TYPE_LEN_DICT c = Some w \<Longrightarrow>
   (c = CHR ''b'' \<and> w = 1) \<or> (c = CHR ''w'' \<and> w = 2) \<or> (c = CHR ''d'' \<and> w = 4)
   \<or> (c = CHR ''q'' \<and> w = 8)"
  by (auto simp: FORMAT_TYPE_LEN_DICT_def split: if_splits)

lemma format_token_int:
  assumes "\<not> f_escaped st" and "f_half st = None" and "argStack st = VInt v # vs"
    and "FORMAT_TYPE_LEN_DICT c = Some w"
  shows "format_loop [CHR ''%'', c] st =
         Inr (st\<lparr>f_result := f_result st @ format_bytes w v, argStack := vs\<rparr>)"
  using assms by (cases st) (simp add: format_step_def)

lemma scan_token_int:
  assumes "\<not> s_escaped st" and "s_half st = None" and "FORMAT_TYPE_LEN_DICT c = Some w"
    and "scan_bytes w 0 (inputStack st) = Inr (v, rest)"
  shows "scan_loop n [CHR ''%'', c] st =
         Inr (st\<lparr>s_result := s_result st @ [VInt v], inputStack := rest\<rparr>)"
proof -
  have "c \<noteq> CHR ''?''"
    using FORMAT_TYPE_LEN_DICT_Some [OF assms(3)] by auto
  then show ?thesis
    using assms by (cases st) (simp add: scan_step_def)
qed

lemma formatQuery_int:
  assumes "FORMAT_TYPE_LEN_DICT c = Some w"
  shows "formatQuery [CHR ''%'', c] [VInt v] = Inr (map ToUint8 (format_bytes w v))"
  using format_token_int [of "format_init [VInt v]" v "[]" c w] assms
  by (simp add: formatQuery_def format_init_def)

lemma scanQuery_int:
  assumes "FORMAT_TYPE_LEN_DICT c = Some w" and "scan_bytes w 0 bs = Inr (v, [])"
  shows "scanQuery bs [CHR ''%'', c] = Inr [VInt v]"
  using scan_token_int [of "scan_init bs" c w v "[]" "length bs"] assms
  by (simp add: scanQuery_def scan_init_def)

lemma scanQuery_roundtrip_int:
  assumes "FORMAT_TYPE_LEN_DICT c = Some w" and "0 \<le> v" and "v < 2 ^ (8 * w)"
  shows "scanQuery (map ToUint8 (format_bytes w v)) [CHR ''%'', c] = Inr [VInt v]"
proof -
  have "take_bit (8 * w) v = v"
    using assms(2,3) by (simp add: take_bit_int_eq_self)
  then have "scan_bytes w 0 (map ToUint8 (format_bytes w v)) = Inr (v, [])"
    using scan_bytes_format_bytes [of w 0 v "[]"] by simp
  then show ?thesis
    by (rule scanQuery_int [OF assms(1)])
qed

text \<open>
  Claim C2: the tokens \<open>b\<close>, \<open>w\<close>, \<open>d\<close>, \<open>q\<close> have the widths 1, 2, 4, 8. For an integer
  argument \<open>formatQuery\<close> emits exactly width bytes, byte \<open>i\<close> being the value shifted right
  by \<open>8 * (width - 1 - i)\<close> and masked to its low 8 bits, the most significant first;
  \<open>scanQuery\<close> rebuilds the integer from width bytes by the inverse shifts and \<open>or\<close>, and
  gives back every value from 0 that fits the width. In particular the maxima
  \<open>2^8 - 1\<close>, \<open>2^16 - 1\<close>, \<open>2^32 - 1\<close> and \<open>2^64 - 1\<close> are encoded as bytes \<open>0xff\<close> and
  decoded to themselves.
\<close>

theorem fixed_width_tokens:
  "(FORMAT_TYPE_LEN_DICT CHR ''b'' = Some 1 \<and> FORMAT_TYPE_LEN_DICT CHR ''w'' = Some 2
    \<and> FORMAT_TYPE_LEN_DICT CHR ''d'' = Some 4 \<and> FORMAT_TYPE_LEN_DICT CHR ''q'' = Some 8)
   \<and> (FORMAT_TYPE_LEN_DICT c = Some w
      \<longrightarrow> formatQuery [CHR ''%'', c] [VInt v] =
            Inr (map (\<lambda>i. word_of_int (drop_bit (8 * (w - 1 - i)) v AND 0xff)) [0..<w]))
   \<and> (FORMAT_TYPE_LEN_DICT c = Some w \<and> length bs = w
      \<longrightarrow> scanQuery bs [CHR ''%'', c] =
            Inr [VInt (foldl (OR) 0
                   (map (\<lambda>i. push_bit (8 * (w - 1 - i)) (uint (bs ! i))) [0..<w]))])
   \<and> (FORMAT_TYPE_LEN_DICT c = Some w \<and> 0 \<le> v \<and> v < 2 ^ (8 * w)
        \<and> formatQuery [CHR ''%'', c] [VInt v] = Inr out
      \<longrightarrow> scanQuery out [CHR ''%'', c] = Inr [VInt v])
   \<and> (formatQuery ''%b'' [VInt (2 ^ 8 - 1)] = Inr (replicate 1 0xff)
      \<and> scanQuery (replicate 1 0xff) ''%b'' = Inr [VInt (2 ^ 8 - 1)])
   \<and> (formatQuery ''%w'' [VInt (2 ^ 16 - 1)] = Inr (replicate 2 0xff)
      \<and> scanQuery (replicate 2 0xff) ''%w'' = Inr [VInt (2 ^ 16 - 1)])
   \<and> (formatQuery ''%d'' [VInt (2 ^ 32 - 1)] = Inr (replicate 4 0xff)
      \<and> scanQuery (replicate 4 0xff) ''%d'' = Inr [VInt (2 ^ 32 - 1)])
   \<and> (formatQuery ''%q'' [VInt (2 ^ 64 - 1)] = Inr (replicate 8 0xff)
      \<and> scanQuery (replicate 8 0xff) ''%q'' = Inr [VInt (2 ^ 64 - 1)])"
proof -
  have widths: "FORMAT_TYPE_LEN_DICT CHR ''b'' = Some 1 \<and> FORMAT_TYPE_LEN_DICT CHR ''w'' = Some 2
      \<and> FORMAT_TYPE_LEN_DICT CHR ''d'' = Some 4 \<and> FORMAT_TYPE_LEN_DICT CHR ''q'' = Some 8"
    by (simp add: FORMAT_TYPE_LEN_DICT_def)
  have enc: "formatQuery [CHR ''%'', c] [VInt v] =
      Inr (map (\<lambda>i. word_of_int (drop_bit (8 * (w - 1 - i)) v AND 0xff)) [0..<w])"
    if "FORMAT_TYPE_LEN_DICT c = Some w"
    using formatQuery_int [OF that, of v] by (simp add: format_bytes_map comp_def)
  have dec: "scanQuery bs [CHR ''%'', c] =
      Inr [VInt (foldl (OR) 0 (map (\<lambda>i. push_bit (8 * (w - 1 - i)) (uint (bs ! i))) [0..<w]))]"
    if "FORMAT_TYPE_LEN_DICT c = Some w" "length bs = w"
    using scanQuery_int [OF that(1)] scan_bytes_fold [OF that(2), of 0 "[]"] by simp
  have rt: "scanQuery out [CHR ''%'', c] = Inr [VInt v]"
    if "FORMAT_TYPE_LEN_DICT c = Some w" "0 \<le> v" "v < 2 ^ (8 * w)"
      "formatQuery [CHR ''%'', c] [VInt v] = Inr out"
    using scanQuery_roundtrip_int [OF that(1,2,3)] that(4) formatQuery_int [OF that(1), of v]
    by simp
  have bytes: "map ToUint8 (format_bytes 1 (2 ^ 8 - 1)) = replicate 1 0xff"
    "map ToUint8 (format_bytes 2 (2 ^ 16 - 1)) = replicate 2 0xff"
    "map ToUint8 (format_bytes 4 (2 ^ 32 - 1)) = replicate 4 0xff"
    "map ToUint8 (format_bytes 8 (2 ^ 64 - 1)) = replicate 8 0xff"
    by (simp_all add: numeral_eq_Suc drop_bit_eq_div)
  have maxb: "formatQuery ''%b'' [VInt (2 ^ 8 - 1)] = Inr (replicate 1 0xff)
      \<and> scanQuery (replicate 1 0xff) ''%b'' = Inr [VInt (2 ^ 8 - 1)]"
    using formatQuery_int [of "CHR ''b''" 1 "2 ^ 8 - 1"]
      scanQuery_roundtrip_int [of "CHR ''b''" 1 "2 ^ 8 - 1"] widths
    by (simp only: bytes) simp
  have maxw: "formatQuery ''%w'' [VInt (2 ^ 16 - 1)] = Inr (replicate 2 0xff)
      \<and> scanQuery (replicate 2 0xff) ''%w'' = Inr [VInt (2 ^ 16 - 1)]"
    using formatQuery_int [of "CHR ''w''" 2 "2 ^ 16 - 1"]
      scanQuery_roundtrip_int [of "CHR ''w''" 2 "2 ^ 16 - 1"] widths
    by (simp only: bytes) simp
  have maxd: "formatQuery ''%d'' [VInt (2 ^ 32 - 1)] = Inr (replicate 4 0xff)
      \<and> scanQuery (replicate 4 0xff) ''%d'' = Inr [VInt (2 ^ 32 - 1)]"
    using formatQuery_int [of "CHR ''d''" 4 "2 ^ 32 - 1"]
      scanQuery_roundtrip_int [of "CHR ''d''" 4 "2 ^ 32 - 1"] widths
    by (simp only: bytes) simp
  have maxq: "formatQuery ''%q'' [VInt (2 ^ 64 - 1)] = Inr (replicate 8 0xff)
      \<and> scanQuery (replicate 8 0xff) ''%q'' = Inr [VInt (2 ^ 64 - 1)]"
    using formatQuery_int [of "CHR ''q''" 8 "2 ^ 64 - 1"]
      scanQuery_roundtrip_int [of "CHR ''q''" 8 "2 ^ 64 - 1"] widths
    by (simp only: bytes) simp
  from widths enc dec rt maxb maxw maxd maxq show ?thesis
    by blast
qed

theorem fixed_width_tokens_witness:
  "formatQuery ''%w'' [VInt 0x1234] = Inr [0x12, 0x34]
   \<and> scanQuery [0x12, 0x34] ''%w'' = Inr [VInt 0x1234]"
proof -
  have hyp: "FORMAT_TYPE_LEN_DICT CHR ''w'' = Some 2 \<and> length [0x12, 0x34 :: byte] = 2
      \<and> (0 :: int) \<le> 0x1234 \<and> (0x1234 :: int) < 2 ^ (8 * 2)"
    by (simp add: FORMAT_TYPE_LEN_DICT_def)
  from hyp fixed_width_tokens [where c = "CHR ''w''" and w = 2 and v = "0x1234"]
  have enc: "formatQuery [CHR ''%'', CHR ''w''] [VInt 0x1234] =
      Inr (map (\<lambda>i. word_of_int (drop_bit (8 * (2 - 1 - i)) 0x1234 AND 0xff)) [0..<2])"
    by blast
  have "map (\<lambda>i. word_of_int (drop_bit (8 * (2 - 1 - i)) 0x1234 AND 0xff) :: byte) [0..<2]
        = [0x12, 0x34]"
    by (simp add: upt_conv_Cons drop_bit_eq_div word_of_int_and_255)
  with enc have c1: "formatQuery ''%w'' [VInt 0x1234] = Inr [0x12, 0x34]"
    by simp
  from hyp c1 fixed_width_tokens [where c = "CHR ''w''" and w = 2 and v = "0x1234"
      and out = "[0x12, 0x34]"]
  have "scanQuery [0x12, 0x34] ''%w'' = Inr [VInt 0x1234]"
    by blast
  with c1 show ?thesis by simp
qed

subsection \<open>One byte more, one byte less\<close>

lemma scan_bytes_numeral:
  "scan_bytes (numeral k) val stack =
     (case stack of
        [] \<Rightarrow> Inl BigIntTypeError
      | b # rest \<Rightarrow>
          scan_bytes (pred_numeral k) (val OR push_bit (pred_numeral k * 8) (uint b)) rest)"
  by (simp add: numeral_eq_Suc)

lemma scan_bytes_extra:
  "scan_bytes k val stack = Inr (v, rest) \<Longrightarrow>
   scan_bytes k val (stack @ [b]) = Inr (v, rest @ [b])"
proof (induction k arbitrary: val stack)
  case 0
  then show ?case by simp
next
  case (Suc k)
  then show ?case by (cases stack) auto
qed

lemma scan_bytes_longer:
  "scan_bytes k val (stack @ [b]) = Inr (v, rest') \<Longrightarrow>
   (\<exists>rest. scan_bytes k val stack = Inr (v, rest) \<and> rest' = rest @ [b])
   \<or> scan_bytes k val stack = Inl BigIntTypeError"
proof (induction k arbitrary: val stack)
  case 0
  then show ?case by simp
next
  case (Suc k)
  then show ?case by (cases stack) auto
qed

lemma loose_neq_None: "loose_neq x None"
  by (cases x) simp_all

lemma scan_step_escaped_after:
  "scan_step n c st = Inr st' \<Longrightarrow> s_escaped st' \<longleftrightarrow> \<not> s_escaped st \<and> c = CHR ''%''"
  by (auto simp: scan_step_def Let_def split: if_splits option.splits sum.splits prod.splits)

lemma scan_step_extra:
  assumes "scan_step n c st = Inr st'"
    and "s_escaped st \<longrightarrow> FORMAT_TYPE_LEN_DICT c \<noteq> None"
  shows "scan_step m c (st\<lparr>inputStack := inputStack st @ [b]\<rparr>) =
         Inr (st'\<lparr>inputStack := inputStack st' @ [b]\<rparr>)"
proof (cases "s_escaped st")
  case True
  with assms(2) obtain w where w: "FORMAT_TYPE_LEN_DICT c = Some w"
    by auto
  then have "c \<noteq> CHR ''?''"
    by (auto simp: FORMAT_TYPE_LEN_DICT_def split: if_splits)
  with True w assms(1) show ?thesis
    by (auto simp: scan_step_def scan_bytes_extra split: sum.splits)
next
  case False
  with assms(1) show ?thesis
    by (cases "inputStack st")
      (auto simp: scan_step_def Let_def loose_neq_None split: if_splits option.splits)
qed

lemma scan_loop_extra:
  "scan_loop n fmt st = Inr st' \<Longrightarrow> fixed_only (s_escaped st) fmt \<Longrightarrow>
   scan_loop m fmt (st\<lparr>inputStack := inputStack st @ [b]\<rparr>) =
     Inr (st'\<lparr>inputStack := inputStack st' @ [b]\<rparr>)"
proof (induction fmt arbitrary: st)
  case Nil
  then show ?case by simp
next
  case (Cons c fmt)
  from Cons.prems(1) obtain st1 where
    step: "scan_step n c st = Inr st1" and rest: "scan_loop n fmt st1 = Inr st'"
    by (auto split: sum.splits)
  have dict: "s_escaped st \<longrightarrow> FORMAT_TYPE_LEN_DICT c \<noteq> None"
    using Cons.prems(2) by auto
  have "fixed_only (s_escaped st1) fmt"
    using Cons.prems(2) scan_step_escaped_after [OF step] by (auto split: if_splits)
  from Cons.IH [OF rest this] scan_step_extra [OF step dict, of m b]
  show ?case by simp
qed

lemma scan_step_short:
  assumes "scan_step m c (st\<lparr>inputStack := inputStack st @ [b]\<rparr>) = Inr st2"
    and "s_escaped st \<longrightarrow> FORMAT_TYPE_LEN_DICT c \<noteq> None"
  shows "(\<exists>st1. scan_step n c st = Inr st1 \<and> st2 = st1\<lparr>inputStack := inputStack st1 @ [b]\<rparr>)
         \<or> scan_step n c st = Inl BigIntTypeError
         \<or> (\<exists>i x. scan_step n c st = Inl (Mismatch i x None))"
proof (cases "s_escaped st")
  case True
  with assms(2) obtain w where w: "FORMAT_TYPE_LEN_DICT c = Some w"
    by auto
  then have q: "c \<noteq> CHR ''?''"
    by (auto simp: FORMAT_TYPE_LEN_DICT_def split: if_splits)
  from True w q assms(1) obtain v rest' where
    long: "scan_bytes w 0 (inputStack st @ [b]) = Inr (v, rest')"
    and st2: "st2 = st\<lparr>s_escaped := False, s_result := s_result st @ [VInt v], inputStack := rest'\<rparr>"
    by (auto simp: scan_step_def split: sum.splits)
  from scan_bytes_longer [OF long] True w q st2 show ?thesis
    by (auto simp: scan_step_def)
next
  case False
  with assms(1) show ?thesis
    by (cases "inputStack st")
      (auto simp: scan_step_def Let_def loose_neq_None split: if_splits option.splits)
qed

lemma scan_loop_short:
  "scan_loop m fmt (st\<lparr>inputStack := inputStack st @ [b]\<rparr>) = Inr st2 \<Longrightarrow>
   fixed_only (s_escaped st) fmt \<Longrightarrow>
   (\<exists>st1. scan_loop n fmt st = Inr st1 \<and> st2 = st1\<lparr>inputStack := inputStack st1 @ [b]\<rparr>)
   \<or> scan_loop n fmt st = Inl BigIntTypeError
   \<or> (\<exists>i x. scan_loop n fmt st = Inl (Mismatch i x None))"
proof (induction fmt arbitrary: st)
  case Nil
  then show ?case by simp
next
  case (Cons c fmt)
  from Cons.prems(1) obtain st2' where
    step: "scan_step m c (st\<lparr>inputStack := inputStack st @ [b]\<rparr>) = Inr st2'"
    and rest: "scan_loop m fmt st2' = Inr st2"
    by (auto split: sum.splits)
  have dict: "s_escaped st \<longrightarrow> FORMAT_TYPE_LEN_DICT c \<noteq> None"
    using Cons.prems(2) by auto
  from scan_step_short [OF step dict, of n]
  consider st1 where "scan_step n c st = Inr st1"
      and "st2' = st1\<lparr>inputStack := inputStack st1 @ [b]\<rparr>"
    | "scan_step n c st = Inl BigIntTypeError"
    | i x where "scan_step n c st = Inl (Mismatch i x None)"
    by blast
  then show ?case
  proof cases
    case 1
    have "fixed_only (s_escaped st1) fmt"
      using Cons.prems(2) scan_step_escaped_after [OF 1(1)] by (auto split: if_splits)
    from Cons.IH [OF rest [unfolded 1(2)] this] 1(1) show ?thesis
      by simp
  next
    case 2
    then show ?thesis by simp
  next
    case 3
    then show ?thesis by simp
  qed
qed

text \<open>
  Claim C4, as the code has it: when the format string has been consumed and bytes
  remain, \<open>scanQuery\<close> fails with their count in the error \<open>Bytes remaining to parse\<close>.
  For a format string of fixed-width integer tokens, literal bytes and spaces, a buffer
  that \<open>scanQuery\<close> accepts is rejected with \<open>1 Bytes remaining to parse\<close> once a byte is
  appended to it, and is rejected without its last byte, where the token that finds the
  input empty fails: \<open>JSBI.BigInt(undefined)\<close> throws in an integer token, and a literal
  reports a mismatch with \<open>undefined\<close>.
\<close>

theorem scan_exhaustion:
  "(scan_loop (length q) fmt (scan_init q) = Inr st \<and> inputStack st \<noteq> []
      \<longrightarrow> scanQuery q fmt = Inl (BytesRemaining (length (inputStack st))))
   \<and> (fixed_only False fmt \<and> scanQuery q fmt = Inr r
      \<longrightarrow> scanQuery (q @ [b]) fmt = Inl (BytesRemaining 1))
   \<and> (fixed_only False fmt \<and> scanQuery (q @ [b]) fmt = Inr r
      \<longrightarrow> scanQuery q fmt = Inl BigIntTypeError
          \<or> (\<exists>i x. scanQuery q fmt = Inl (Mismatch i x None)))"
proof -
  have remaining: "scanQuery q fmt = Inl (BytesRemaining (length (inputStack st)))"
    if "scan_loop (length q) fmt (scan_init q) = Inr st" "inputStack st \<noteq> []"
    using that by (simp add: scanQuery_def)
  have extra: "scanQuery (q @ [b]) fmt = Inl (BytesRemaining 1)"
    if fixed: "fixed_only False fmt" and ok: "scanQuery q fmt = Inr r"
  proof -
    from ok obtain st1 where loop: "scan_loop (length q) fmt (scan_init q) = Inr st1"
      and empty: "inputStack st1 = []"
      by (auto simp: scanQuery_def split: sum.splits if_splits)
    have "scan_init (q @ [b]) = (scan_init q)\<lparr>inputStack := inputStack (scan_init q) @ [b]\<rparr>"
      by (simp add: scan_init_def)
    with scan_loop_extra [OF loop, of "length (q @ [b])" b] fixed
    have "scan_loop (length (q @ [b])) fmt (scan_init (q @ [b])) =
          Inr (st1\<lparr>inputStack := inputStack st1 @ [b]\<rparr>)"
      by (simp add: scan_init_def)
    with empty show ?thesis
      by (simp add: scanQuery_def)
  qed
  have short: "scanQuery q fmt = Inl BigIntTypeError
      \<or> (\<exists>i x. scanQuery q fmt = Inl (Mismatch i x None))"
    if fixed: "fixed_only False fmt" and ok: "scanQuery (q @ [b]) fmt = Inr r"
  proof -
    from ok obtain st2 where
      loop: "scan_loop (length (q @ [b])) fmt (scan_init (q @ [b])) = Inr st2"
      and empty: "inputStack st2 = []"
      by (auto simp: scanQuery_def split: sum.splits if_splits)
    have init: "scan_init (q @ [b]) = (scan_init q)\<lparr>inputStack := inputStack (scan_init q) @ [b]\<rparr>"
      by (simp add: scan_init_def)
    have esc: "fixed_only (s_escaped (scan_init q)) fmt"
      using fixed by (simp add: scan_init_def)
    from scan_loop_short [OF loop [unfolded init] esc, of "length q"] empty
    have "scan_loop (length q) fmt (scan_init q) = Inl BigIntTypeError
        \<or> (\<exists>i x. scan_loop (length q) fmt (scan_init q) = Inl (Mismatch i x None))"
      by auto
    then show ?thesis
      by (auto simp: scanQuery_def)
  qed
  from remaining extra short show ?thesis
    by blast
qed

theorem scan_exhaustion_witness:
  "scanQuery [0xAA, 0x12, 0x34, 0x56] ''AA%w'' = Inl (BytesRemaining 1)
   \<and> scanQuery [0xAA, 0x12] ''AA%w'' = Inl BigIntTypeError
   \<and> scanQuery [0x12, 0x34] ''%w AA'' = Inl (Mismatch 1 (Num 170) None)
   \<and> scanQuery [0xAA, 0x12, 0x34] ''AA'' = Inl (BytesRemaining 2)"
proof -
  let ?st = "\<lparr>s_result = [], inputStack = [0x12, 0x34 :: byte], s_half = None,
             s_escaped = False\<rparr>"
  have fixed: "fixed_only False ''AA%w'' \<and> fixed_only False ''%w AA''"
    by (simp add: FORMAT_TYPE_LEN_DICT_def)
  have ok1: "scanQuery [0xAA, 0x12, 0x34] ''AA%w'' = Inr [VInt 0x1234]"
    by (simp add: scanQuery_def scan_init_def scan_step_def FORMAT_TYPE_LEN_DICT_def
        parseInt16_def hexDigit_def StrWhiteSpaceChar_def scan_bytes_numeral)
  have ok2: "scanQuery [0x12, 0x34, 0xAA] ''%w AA'' = Inr [VInt 0x1234]"
    by (simp add: scanQuery_def scan_init_def scan_step_def FORMAT_TYPE_LEN_DICT_def
        parseInt16_def hexDigit_def StrWhiteSpaceChar_def scan_bytes_numeral)
  have loop: "scan_loop (length [0xAA, 0x12, 0x34 :: byte]) ''AA'' (scan_init [0xAA, 0x12, 0x34])
              = Inr ?st \<and> inputStack ?st \<noteq> []"
    by (simp add: scan_init_def scan_step_def parseInt16_def hexDigit_def StrWhiteSpaceChar_def)
  from fixed ok1 scan_exhaustion [where fmt = "''AA%w''" and q = "[0xAA, 0x12, 0x34]"
      and r = "[VInt 0x1234]" and b = "0x56"]
  have c1: "scanQuery ([0xAA, 0x12, 0x34] @ [0x56]) ''AA%w'' = Inl (BytesRemaining 1)"
    by blast
  have ok1': "scanQuery ([0xAA, 0x12] @ [0x34]) ''AA%w'' = Inr [VInt 0x1234]"
    using ok1 by simp
  from fixed ok1' scan_exhaustion [where fmt = "''AA%w''" and q = "[0xAA, 0x12]"
      and r = "[VInt 0x1234]" and b = "0x34"]
  have "scanQuery [0xAA, 0x12] ''AA%w'' = Inl BigIntTypeError
      \<or> (\<exists>i x. scanQuery [0xAA, 0x12] ''AA%w'' = Inl (Mismatch i x None))"
    by blast
  moreover have "scanQuery [0xAA, 0x12] ''AA%w'' = Inl BigIntTypeError"
    by (simp add: scanQuery_def scan_init_def scan_step_def FORMAT_TYPE_LEN_DICT_def
        parseInt16_def hexDigit_def StrWhiteSpaceChar_def scan_bytes_numeral)
  ultimately have c2: "scanQuery [0xAA, 0x12] ''AA%w'' = Inl BigIntTypeError"
    by blast
  have ok2': "scanQuery ([0x12, 0x34] @ [0xAA]) ''%w AA'' = Inr [VInt 0x1234]"
    using ok2 by simp
  from fixed ok2' scan_exhaustion [where fmt = "''%w AA''" and q = "[0x12, 0x34]"
      and r = "[VInt 0x1234]" and b = "0xAA"]
  have "scanQuery [0x12, 0x34] ''%w AA'' = Inl BigIntTypeError
      \<or> (\<exists>i x. scanQuery [0x12, 0x34] ''%w AA'' = Inl (Mismatch i x None))"
    by blast
  moreover have "scanQuery [0x12, 0x34] ''%w AA'' = Inl (Mismatch 1 (Num 170) None)"
    by (simp add: scanQuery_def scan_init_def scan_step_def FORMAT_TYPE_LEN_DICT_def
        parseInt16_def hexDigit_def StrWhiteSpaceChar_def scan_bytes_numeral)
  ultimately have c3: "scanQuery [0x12, 0x34] ''%w AA'' = Inl (Mismatch 1 (Num 170) None)"
    by blast
  from loop scan_exhaustion [where fmt = "''AA''" and q = "[0xAA, 0x12, 0x34]" and st = ?st]
  have "scanQuery [0xAA, 0x12, 0x34] ''AA'' = Inl (BytesRemaining (length (inputStack ?st)))"
    by blast
  then have c4: "scanQuery [0xAA, 0x12, 0x34] ''AA'' = Inl (BytesRemaining 2)"
    by simp
  from c1 c2 c3 c4 show ?thesis
    by simp
qed

text \<open>
  Claim C4 as stated fails for the string tokens and the skip token, which do not
  notice that the input has run out: \<open>[0x00, 0x03, 'h', 'i']\<close> is one byte short of what
  \<open>%s\<close> consumes from \<open>[0x00, 0x03, 'h', 'i', 0x00]\<close>, and the empty buffer is one byte short
  of what \<open>%?\<close> consumes, and \<open>scanQuery\<close> succeeds on both.
\<close>

theorem scan_short_buffer_accepted:
  "scanQuery [0x00, 0x03, 0x68, 0x69, 0x00] ''%s'' = Inr [VStr (str ''hi'')]
   \<and> scanQuery [0x00, 0x03, 0x68, 0x69] ''%s'' = Inr [VStr (str ''h'')]
   \<and> scanQuery [0x07] ''%?'' = Inr []
   \<and> scanQuery [] ''%?'' = Inr []"
  by (simp add: scanQuery_def scan_init_def scan_step_def FORMAT_TYPE_LEN_DICT_def
      shift_int32_def fromCharCode_def str_def)

subsection \<open>Strings\<close>

lemma ucast_byte_back:
  assumes "(u :: 16 word) < 256"
  shows "ucast (ucast u :: byte) = u"
proof -
  from assms have "unat u < 256"
    by (simp add: word_less_nat_alt)
  then have "take_bit 8 (unat u) = unat u"
    by (simp add: take_bit_nat_eq_self)
  then have "unat (ucast (ucast u :: byte) :: 16 word) = unat u"
    by (simp add: unsigned_ucast_eq unsigned_take_bit_eq)
  then show ?thesis
    by (simp add: word_eq_iff_unsigned [where ?'a = nat])
qed

lemma fromCharCode_charcodes:
  "list_all (\<lambda>u. u < 256) s \<Longrightarrow> fromCharCode (map ToUint8 (stringToCharCodeArray s)) = s"
  by (induction s) (simp_all add: fromCharCode_def stringToCharCodeArray_def ucast_byte_back)

lemma prefix_bytes_value:
  assumes "L < 65536"
  shows "256 * unat (word_of_int (drop_bit 8 (int L) AND 0xff) :: byte)
         + unat (word_of_int (int L AND 0xff) :: byte) = L"
proof -
  have and_255: "(word_of_int (k AND 0xff) :: byte) = word_of_int k" for k :: int
  proof -
    have "k AND 0xff = take_bit 8 k"
      by (simp add: take_bit_eq_mask mask_eq_exp_minus_1)
    then show ?thesis
      by (simp add: word_of_int_eq_iff)
  qed
  have "drop_bit 8 (int L) = int (L div 256)"
    by (simp add: drop_bit_eq_div zdiv_int)
  then have hi: "(word_of_int (drop_bit 8 (int L) AND 0xff) :: byte) = word_of_nat (L div 256)"
    by (simp only: and_255 of_int_of_nat_eq)
  have lo: "(word_of_int (int L AND 0xff) :: byte) = word_of_nat L"
    by (simp only: and_255 of_int_of_nat_eq)
  have "L div 256 < 256"
    using assms by simp
  then have "L div 256 mod 256 = L div 256"
    by simp
  then show ?thesis
    by (simp add: hi lo unat_of_nat)
qed

lemma format_token_str:
  assumes "\<not> f_escaped st" and "f_half st = None" and "argStack st = VStr s # vs"
    and "c = CHR ''x'' \<or> c = CHR ''s''"
  shows "format_loop [CHR ''%'', c] st =
         Inr (st\<lparr>f_result := f_result st
                @ [Num (drop_bit 8 (int (length s + (if c = CHR ''s'' then 1 else 0))) AND 0xff),
                   Num (int (length s + (if c = CHR ''s'' then 1 else 0)) AND 0xff)]
                @ stringToCharCodeArray s @ (if c = CHR ''s'' then [Num 0] else []),
              argStack := vs\<rparr>)"
  using assms
  by (cases st) (auto simp add: format_step_def FORMAT_TYPE_LEN_DICT_def Let_def add.commute)

lemma scan_token_str:
  assumes "\<not> s_escaped st" and "s_half st = None" and "c = CHR ''x'' \<or> c = CHR ''s''"
    and "inputStack st = hi # lo # body @ rest" and "length body = 256 * unat hi + unat lo"
  shows "scan_loop n [CHR ''%'', c] st =
         Inr (st\<lparr>s_result := s_result st
                @ [VStr (if c = CHR ''s'' then butlast (fromCharCode body) else fromCharCode body)],
              inputStack := rest\<rparr>)"
proof -
  have len: "nat (push_bit 8 (uint hi) OR uint lo) = 256 * unat hi + unat lo"
  proof -
    have "push_bit 8 (uint hi) OR uint lo = push_bit 8 (uint hi) + uint lo"
      by (rule disjunctive_add [symmetric]) (auto simp: bit_simps dest: bit_imp_le_length)
    then show ?thesis
      by (simp add: push_bit_eq_mult nat_add_distrib nat_mult_distrib)
  qed
  show ?thesis
    using assms len
    by (cases st) (auto simp add: scan_step_def FORMAT_TYPE_LEN_DICT_def Let_def shift_int32_def)
qed

lemma format_token_star:
  assumes "\<not> f_escaped st" and "f_half st = None" and "argStack st = VStr s # vs"
  shows "format_loop ''%*'' st =
         Inr (st\<lparr>f_result := f_result st @ stringToCharCodeArray s, argStack := vs\<rparr>)"
  using assms
  by (cases st) (simp add: format_step_def FORMAT_TYPE_LEN_DICT_def)

lemma scan_token_star:
  assumes "\<not> s_escaped st" and "s_half st = None"
  shows "scan_loop n ''%*'' st =
         Inr (st\<lparr>s_result := s_result st @ [VStr (fromCharCode (inputStack st))],
              inputStack := []\<rparr>)"
  using assms
  by (cases st) (simp add: scan_step_def FORMAT_TYPE_LEN_DICT_def)

lemma format_bytes_numeral:
  "format_bytes (numeral k) v =
     Num (drop_bit (pred_numeral k * 8) v AND 0xff) # format_bytes (pred_numeral k) v"
  by (simp add: numeral_eq_Suc)

subsection \<open>Encoding, then decoding\<close>

lemma fq_state_unchanged:
  "argStack fs = vs \<Longrightarrow> fs\<lparr>f_result := f_result fs @ [], argStack := vs\<rparr> = fs"
  by (cases fs) simp

lemma sq_state_unchanged:
  "inputStack ss = bs \<Longrightarrow> ss\<lparr>s_result := s_result ss @ [], inputStack := bs\<rparr> = ss"
  by (cases ss) simp

lemma token_roundtrip:
  assumes fits: "arg_fits c v"
  shows "\<exists>out.
     (\<forall>fs vs. \<not> f_escaped fs \<and> f_half fs = None \<and> argStack fs = v # vs
        \<longrightarrow> format_loop [CHR ''%'', c] fs =
            Inr (fs\<lparr>f_result := f_result fs @ out, argStack := vs\<rparr>))
     \<and> (\<forall>ss n rest. \<not> s_escaped ss \<and> s_half ss = None
          \<and> inputStack ss = map ToUint8 out @ rest \<and> (c = CHR ''*'' \<longrightarrow> rest = [])
        \<longrightarrow> scan_loop n [CHR ''%'', c] ss =
            Inr (ss\<lparr>s_result := s_result ss @ [v], inputStack := rest\<rparr>))"
proof (cases v)
  case (VInt k)
  with fits obtain w where w: "FORMAT_TYPE_LEN_DICT c = Some w"
    and range: "0 \<le> k" "k < 2 ^ (8 * w)"
    by (auto split: option.splits)
  have "take_bit (8 * w) k = k"
    using range by (simp add: take_bit_int_eq_self)
  then have bytes: "scan_bytes w 0 (map ToUint8 (format_bytes w k) @ rest) = Inr (k, rest)"
    for rest
    using scan_bytes_format_bytes [of w 0 k rest] by simp
  have "\<forall>fs vs. \<not> f_escaped fs \<and> f_half fs = None \<and> argStack fs = v # vs
        \<longrightarrow> format_loop [CHR ''%'', c] fs =
            Inr (fs\<lparr>f_result := f_result fs @ format_bytes w k, argStack := vs\<rparr>)"
    using format_token_int [OF _ _ _ w] VInt by blast
  moreover have "\<forall>ss n rest. \<not> s_escaped ss \<and> s_half ss = None
          \<and> inputStack ss = map ToUint8 (format_bytes w k) @ rest \<and> (c = CHR ''*'' \<longrightarrow> rest = [])
        \<longrightarrow> scan_loop n [CHR ''%'', c] ss =
            Inr (ss\<lparr>s_result := s_result ss @ [v], inputStack := rest\<rparr>)"
    using scan_token_int [OF _ _ w] bytes VInt by simp
  ultimately show ?thesis
    by blast
next
  case (VStr s)
  with fits have clean: "list_all (\<lambda>u. u < 256) s"
    and kind: "c = CHR ''x'' \<and> length s < 65536 \<or> c = CHR ''s'' \<and> length s + 1 < 65536
      \<or> c = CHR ''*''"
    by simp_all
  show ?thesis
  proof (cases "c = CHR ''*''")
    case True
    have "\<forall>fs vs. \<not> f_escaped fs \<and> f_half fs = None \<and> argStack fs = v # vs
        \<longrightarrow> format_loop [CHR ''%'', c] fs =
            Inr (fs\<lparr>f_result := f_result fs @ stringToCharCodeArray s, argStack := vs\<rparr>)"
      using format_token_star True VStr by blast
    moreover have "\<forall>ss n rest. \<not> s_escaped ss \<and> s_half ss = None
          \<and> inputStack ss = map ToUint8 (stringToCharCodeArray s) @ rest
          \<and> (c = CHR ''*'' \<longrightarrow> rest = [])
        \<longrightarrow> scan_loop n [CHR ''%'', c] ss =
            Inr (ss\<lparr>s_result := s_result ss @ [v], inputStack := rest\<rparr>)"
      using scan_token_star True VStr fromCharCode_charcodes [OF clean] by simp
    ultimately show ?thesis
      by blast
  next
    case False
    define L where "L = length s + (if c = CHR ''s'' then 1 else 0)"
    define tail :: "jsnum list" where "tail = (if c = CHR ''s'' then [Num 0] else [])"
    define out where "out = [Num (drop_bit 8 (int L) AND 0xff), Num (int L AND 0xff)]
      @ stringToCharCodeArray s @ tail"
    from False kind have xs: "c = CHR ''x'' \<or> c = CHR ''s''" and L: "L < 65536"
      by (auto simp: L_def)
    have enc: "\<forall>fs vs. \<not> f_escaped fs \<and> f_half fs = None \<and> argStack fs = v # vs
        \<longrightarrow> format_loop [CHR ''%'', c] fs =
            Inr (fs\<lparr>f_result := f_result fs @ out, argStack := vs\<rparr>)"
      using format_token_str [OF _ _ _ xs] VStr by (simp add: out_def L_def tail_def)
    define body where "body = map ToUint8 (stringToCharCodeArray s @ tail)"
    have body_len: "length body = L"
      using xs by (auto simp: body_def L_def tail_def stringToCharCodeArray_def)
    have body_str: "(if c = CHR ''s'' then butlast (fromCharCode body) else fromCharCode body) = s"
      using fromCharCode_charcodes [OF clean]
      by (simp add: body_def tail_def fromCharCode_def)
    have dec: "scan_loop n [CHR ''%'', c] ss =
        Inr (ss\<lparr>s_result := s_result ss @ [v], inputStack := rest\<rparr>)"
      if "\<not> s_escaped ss" "s_half ss = None" "inputStack ss = map ToUint8 out @ rest"
      for ss n rest
    proof -
      have stack: "inputStack ss =
          word_of_int (drop_bit 8 (int L) AND 0xff) # word_of_int (int L AND 0xff) # body @ rest"
        using that(3) by (simp add: out_def body_def)
      have "length body =
          256 * unat (word_of_int (drop_bit 8 (int L) AND 0xff) :: byte)
          + unat (word_of_int (int L AND 0xff) :: byte)"
        using prefix_bytes_value [OF L] body_len by simp
      from scan_token_str [OF that(1,2) xs stack this, of n] body_str VStr
      show ?thesis by simp
    qed
    from enc dec show ?thesis
      by blast
  qed
next
  case (VBytes bs)
  with fits show ?thesis by simp
next
  case VUndefined
  with fits show ?thesis by simp
qed

lemma tokens_roundtrip:
  "args_match ts args \<Longrightarrow>
   \<exists>out.
     (\<forall>fs. \<not> f_escaped fs \<and> f_half fs = None \<and> argStack fs = args
        \<longrightarrow> format_loop (token_format ts) fs =
            Inr (fs\<lparr>f_result := f_result fs @ out, argStack := []\<rparr>))
     \<and> (\<forall>ss n. \<not> s_escaped ss \<and> s_half ss = None \<and> inputStack ss = map ToUint8 out
        \<longrightarrow> scan_loop n (token_format ts) ss =
            Inr (ss\<lparr>s_result := s_result ss @ args, inputStack := []\<rparr>))
     \<and> (ts = [] \<longrightarrow> out = [])"
proof (induction ts args rule: args_match.induct)
  case 1
  show ?case
    by (rule exI [of _ "[]"]) (simp add: token_format_def fq_state_unchanged sq_state_unchanged)
next
  case (2 c cs v vs)
  from "2.prems" have fits: "arg_fits c v" and last: "c = CHR ''*'' \<longrightarrow> cs = []"
    and rest: "args_match cs vs"
    by (simp_all split: if_splits)
  from token_roundtrip [OF fits] obtain out1 where
    enc1: "\<And>fs ws. \<not> f_escaped fs \<Longrightarrow> f_half fs = None \<Longrightarrow> argStack fs = v # ws \<Longrightarrow>
      format_loop [CHR ''%'', c] fs = Inr (fs\<lparr>f_result := f_result fs @ out1, argStack := ws\<rparr>)"
    and dec1: "\<And>ss n bs. \<not> s_escaped ss \<Longrightarrow> s_half ss = None \<Longrightarrow>
      inputStack ss = map ToUint8 out1 @ bs \<Longrightarrow> (c = CHR ''*'' \<longrightarrow> bs = []) \<Longrightarrow>
      scan_loop n [CHR ''%'', c] ss = Inr (ss\<lparr>s_result := s_result ss @ [v], inputStack := bs\<rparr>)"
    by blast
  from "2.IH" [OF rest] obtain out2 where
    enc2: "\<And>fs. \<not> f_escaped fs \<Longrightarrow> f_half fs = None \<Longrightarrow> argStack fs = vs \<Longrightarrow>
      format_loop (token_format cs) fs = Inr (fs\<lparr>f_result := f_result fs @ out2, argStack := []\<rparr>)"
    and dec2: "\<And>ss n. \<not> s_escaped ss \<Longrightarrow> s_half ss = None \<Longrightarrow>
      inputStack ss = map ToUint8 out2 \<Longrightarrow>
      scan_loop n (token_format cs) ss = Inr (ss\<lparr>s_result := s_result ss @ vs, inputStack := []\<rparr>)"
    and nil2: "cs = [] \<longrightarrow> out2 = []"
    by blast
  have split: "token_format (c # cs) = [CHR ''%'', c] @ token_format cs"
    by (simp add: token_format_def)
  have enc: "format_loop (token_format (c # cs)) fs =
      Inr (fs\<lparr>f_result := f_result fs @ out1 @ out2, argStack := []\<rparr>)"
    if "\<not> f_escaped fs" "f_half fs = None" "argStack fs = v # vs" for fs
    using enc1 [OF that] enc2 [of "fs\<lparr>f_result := f_result fs @ out1, argStack := vs\<rparr>"] that
    by (simp only: split format_loop_append) simp
  have dec: "scan_loop n (token_format (c # cs)) ss =
      Inr (ss\<lparr>s_result := s_result ss @ v # vs, inputStack := []\<rparr>)"
    if "\<not> s_escaped ss" "s_half ss = None" "inputStack ss = map ToUint8 (out1 @ out2)" for ss n
  proof -
    have "c = CHR ''*'' \<longrightarrow> map ToUint8 out2 = []"
      using last nil2 by simp
    with dec1 [of ss "map ToUint8 out2" n] that
    have "scan_loop n [CHR ''%'', c] ss =
        Inr (ss\<lparr>s_result := s_result ss @ [v], inputStack := map ToUint8 out2\<rparr>)"
      by simp
    with dec2 [of "ss\<lparr>s_result := s_result ss @ [v], inputStack := map ToUint8 out2\<rparr>" n] that
    show ?thesis
      by (simp only: split scan_loop_append) simp
  qed
  show ?case
    using enc dec by (intro exI [of _ "out1 @ out2"]) simp
qed simp_all

text \<open>
  Claim C1, as the code has it: for a format string that is a sequence of the tokens
  \<open>%b\<close>, \<open>%w\<close>, \<open>%d\<close>, \<open>%q\<close>, \<open>%x\<close>, \<open>%s\<close>, with \<open>%*\<close> allowed as the last one, and one
  argument for each token, where an integer lies between 0 and the largest value of its
  width and a string has character codes below 256 and a length that fits the prefix,
  \<open>formatQuery\<close> succeeds and \<open>scanQuery\<close> on its bytes with the same format returns the
  arguments.
\<close>

theorem format_scan_roundtrip:
  "args_match ts args \<Longrightarrow>
   \<exists>bytes. formatQuery (token_format ts) args = Inr bytes
     \<and> scanQuery bytes (token_format ts) = Inr args"
proof -
  assume "args_match ts args"
  from tokens_roundtrip [OF this] obtain out where
    enc: "\<And>fs. \<not> f_escaped fs \<Longrightarrow> f_half fs = None \<Longrightarrow> argStack fs = args \<Longrightarrow>
      format_loop (token_format ts) fs = Inr (fs\<lparr>f_result := f_result fs @ out, argStack := []\<rparr>)"
    and dec: "\<And>ss n. \<not> s_escaped ss \<Longrightarrow> s_half ss = None \<Longrightarrow>
      inputStack ss = map ToUint8 out \<Longrightarrow>
      scan_loop n (token_format ts) ss = Inr (ss\<lparr>s_result := s_result ss @ args, inputStack := []\<rparr>)"
    by blast
  have "formatQuery (token_format ts) args = Inr (map ToUint8 out)"
    using enc [of "format_init args"] by (simp add: formatQuery_def format_init_def)
  moreover have "scanQuery (map ToUint8 out) (token_format ts) = Inr args"
    using dec [of "scan_init (map ToUint8 out)" "length (map ToUint8 out)"]
    by (simp add: scanQuery_def scan_init_def)
  ultimately show ?thesis
    by blast
qed

theorem format_scan_roundtrip_witness:
  "formatQuery ''%b%q%x%s%*''
     [VInt 0xff, VInt (2 ^ 64 - 1), VStr (str ''hi''), VStr (str ''ok''), VStr (str ''rest'')]
   = Inr [0xff, 0xff, 0xff, 0xff, 0xff, 0xff, 0xff, 0xff, 0xff,
          0x00, 0x02, 0x68, 0x69, 0x00, 0x03, 0x6f, 0x6b, 0x00, 0x72, 0x65, 0x73, 0x74]
   \<and> scanQuery [0xff, 0xff, 0xff, 0xff, 0xff, 0xff, 0xff, 0xff, 0xff,
          0x00, 0x02, 0x68, 0x69, 0x00, 0x03, 0x6f, 0x6b, 0x00, 0x72, 0x65, 0x73, 0x74]
       ''%b%q%x%s%*''
   = Inr [VInt 0xff, VInt (2 ^ 64 - 1), VStr (str ''hi''), VStr (str ''ok''), VStr (str ''rest'')]"
proof -
  let ?args = "[VInt 0xff, VInt (2 ^ 64 - 1), VStr (str ''hi''), VStr (str ''ok''),
                VStr (str ''rest'')]"
  have fmt: "token_format ''bqxs*'' = ''%b%q%x%s%*''"
    by (simp add: token_format_def)
  have "args_match ''bqxs*'' ?args"
    by (simp add: FORMAT_TYPE_LEN_DICT_def str_def)
  from format_scan_roundtrip [OF this] obtain bytes where
    enc: "formatQuery ''%b%q%x%s%*'' ?args = Inr bytes"
    and dec: "scanQuery bytes ''%b%q%x%s%*'' = Inr ?args"
    unfolding fmt by blast
  have "formatQuery ''%b%q%x%s%*'' ?args =
      Inr [0xff, 0xff, 0xff, 0xff, 0xff, 0xff, 0xff, 0xff, 0xff,
           0x00, 0x02, 0x68, 0x69, 0x00, 0x03, 0x6f, 0x6b, 0x00, 0x72, 0x65, 0x73, 0x74]"
    by (simp add: formatQuery_def format_init_def format_step_def FORMAT_TYPE_LEN_DICT_def
        str_def stringToCharCodeArray_def format_bytes_numeral drop_bit_eq_div)
  with enc dec show ?thesis
    by simp
qed

text \<open>
  Claim C1 as stated fails. A \<open>%*\<close> that is not the last token takes, on decode, the
  bytes of the tokens after it. The tokens \<open>#\<close> and \<open>?\<close> are not encoded at all. An integer
  beyond its width, and a character code from 256, are cut to their low bits, and a
  \<open>Uint8Array\<close> given to \<open>%*\<close> comes back as a string. A string of 65535 characters gets the
  prefix 0 from \<open>%s\<close>.
\<close>

theorem format_scan_roundtrip_fails:
  "(formatQuery ''%*%b'' [VStr (str ''A''), VInt 1] = Inr [0x41, 0x01]
      \<and> scanQuery [0x41, 0x01] ''%*%b'' = Inl BigIntTypeError)
   \<and> formatQuery ''%#'' [VBytes [0x41]] = Inl (UnrecognizedFormatChar CHR ''#'')
   \<and> (formatQuery ''%b'' [VInt 256] = Inr [0x00] \<and> scanQuery [0x00] ''%b'' = Inr [VInt 0])
   \<and> (formatQuery ''%x'' [VStr [0x263A]] = Inr [0x00, 0x01, 0x3A]
      \<and> scanQuery [0x00, 0x01, 0x3A] ''%x'' = Inr [VStr [0x3A]])
   \<and> (formatQuery ''%*'' [VBytes [0x41]] = Inr [0x41]
      \<and> scanQuery [0x41] ''%*'' = Inr [VStr [0x41]])
   \<and> (formatQuery ''%s'' [VStr (replicate 65535 0x41)] = Inr (0 # 0 # replicate 65535 0x41 @ [0])
      \<and> scanQuery (0 # 0 # replicate 65535 0x41 @ [0]) ''%s'' = Inl (BytesRemaining 65536))"
proof -
  have star: "formatQuery ''%*%b'' [VStr (str ''A''), VInt 1] = Inr [0x41, 0x01]
      \<and> scanQuery [0x41, 0x01] ''%*%b'' = Inl BigIntTypeError"
    by (simp add: formatQuery_def format_init_def format_step_def scanQuery_def scan_init_def
        scan_step_def FORMAT_TYPE_LEN_DICT_def str_def stringToCharCodeArray_def)
  have hash: "formatQuery ''%#'' [VBytes [0x41]] = Inl (UnrecognizedFormatChar CHR ''#'')"
    by (simp add: formatQuery_def format_init_def format_step_def FORMAT_TYPE_LEN_DICT_def)
  have wide: "formatQuery ''%b'' [VInt 256] = Inr [0x00] \<and> scanQuery [0x00] ''%b'' = Inr [VInt 0]"
    by (simp add: formatQuery_def format_init_def format_step_def scanQuery_def scan_init_def
        scan_step_def FORMAT_TYPE_LEN_DICT_def)
  have code: "formatQuery ''%x'' [VStr [0x263A]] = Inr [0x00, 0x01, 0x3A]
      \<and> scanQuery [0x00, 0x01, 0x3A] ''%x'' = Inr [VStr [0x3A]]"
    by (simp add: formatQuery_def format_init_def format_step_def scanQuery_def scan_init_def
        scan_step_def FORMAT_TYPE_LEN_DICT_def stringToCharCodeArray_def shift_int32_def
        fromCharCode_def)
  have array: "formatQuery ''%*'' [VBytes [0x41]] = Inr [0x41]
      \<and> scanQuery [0x41] ''%*'' = Inr [VStr [0x41]]"
    by (simp add: formatQuery_def format_init_def format_step_def scanQuery_def scan_init_def
        scan_step_def FORMAT_TYPE_LEN_DICT_def fromCharCode_def)
  have long1: "formatQuery ''%s'' [VStr (replicate 65535 0x41)] =
      Inr (0 # 0 # replicate 65535 0x41 @ [0])"
    using format_s [of "replicate 65535 0x41"] by simp
  have long2: "scanQuery (0 # 0 # replicate 65535 0x41 @ [0]) ''%s'' = Inl (BytesRemaining 65536)"
    using scan_s [of 0 0 "replicate 65535 0x41 @ [0]"] by simp
  from star hash wide code array long1 long2 show ?thesis
    by blast
qed

end
